theory Spec2Isabelle
  imports Complex_Main "HOL-Library.AList"
begin

section \<open>Data model (controller/ryu\_utils.py)\<close>

text \<open>
  A Python float is modelled by the real number it denotes (the infinities and NaN are not
  values of the model) and compared as that number; the floating-point operations, which
  round, are a parameter of the model (\<open>float_ops\<close> below). Python's unbounded integers
  are \<open>int\<close>.
  A dictionary is an association list in insertion order with pairwise distinct keys:
  assigning to an existing key keeps its position, a new key is appended
  (\<open>AList.update\<close>), as Python dictionaries do.
\<close>

datatype LoadBalancingAlgorithm =
  ROUND_ROBIN | LEAST_CONNECTIONS | LATENCY_WEIGHTED | WEIGHTED_ROUND_ROBIN

record ServerMetrics =
  ip :: string
  port :: int
  healthy :: bool
  last_latency_ms :: real
  cpu_percent :: real
  memory_percent :: real
  active_connections :: int
  total_requests :: int
  last_health_check :: real
  weight :: real

record LoadBalancer =
  servers :: "(string \<times> ServerMetrics) list"
  current_algorithm :: LoadBalancingAlgorithm
  round_robin_index :: int
  health_check_interval :: int
  request_counts :: "(string \<times> int) list"

text \<open>\<open>ServerMetrics(ip=ip, port=port)\<close>: the dataclass defaults.\<close>

definition new_ServerMetrics :: "string \<Rightarrow> int \<Rightarrow> ServerMetrics" where
  "new_ServerMetrics i p =
     \<lparr>ip = i, port = p, healthy = True, last_latency_ms = 0, cpu_percent = 0,
      memory_percent = 0, active_connections = 0, total_requests = 0,
      last_health_check = 0, weight = 1\<rparr>"

text \<open>\<open>str\<close> of an integer, as an f-string formats it: decimal digits, \<open>-\<close> for negatives.\<close>

definition digit_char :: "nat \<Rightarrow> char" where
  "digit_char d = char_of (48 + d)"

fun str_nat :: "nat \<Rightarrow> string" where
  "str_nat n = (if n < 10 then [digit_char n] else str_nat (n div 10) @ [digit_char (n mod 10)])"

definition py_str_int :: "int \<Rightarrow> string" where
  "py_str_int i = (if i < 0 then CHR ''-'' # str_nat (nat (- i)) else str_nat (nat i))"

text \<open>Reading a string of decimal digits back as a number.\<close>

definition nat_of_digits :: "string \<Rightarrow> nat" where
  "nat_of_digits s = foldl (\<lambda>a c. 10 * a + (of_char c - 48)) 0 s"

definition format_server_id :: "string \<Rightarrow> int \<Rightarrow> string" where
  "format_server_id i p = i @ '':'' @ py_str_int p"

definition server_id :: "ServerMetrics \<Rightarrow> string" where
  "server_id s = format_server_id (ip s) (port s)"

text \<open>The exceptions the modelled code can raise.\<close>

datatype error = ValueError | IndexError | AttributeError | RequestException

subsection \<open>Python built-ins used by the selection code\<close>

text \<open>
  \<open>max(xs, key=f)\<close> keeps the first element whose key is maximal (a later element
  replaces the current one only when its key is strictly greater), \<open>min\<close> dually;
  both raise \<open>ValueError\<close> on an empty sequence.
\<close>

fun py_max_from :: "('a \<Rightarrow> 'b::linorder) \<Rightarrow> 'a \<Rightarrow> 'a list \<Rightarrow> 'a" where
  "py_max_from key best [] = best"
| "py_max_from key best (x # xs) = py_max_from key (if key x > key best then x else best) xs"

definition py_max :: "('a \<Rightarrow> 'b::linorder) \<Rightarrow> 'a list \<Rightarrow> error + 'a" where
  "py_max key xs = (case xs of [] \<Rightarrow> Inl ValueError | x # rest \<Rightarrow> Inr (py_max_from key x rest))"

fun py_min_from :: "('a \<Rightarrow> 'b::linorder) \<Rightarrow> 'a \<Rightarrow> 'a list \<Rightarrow> 'a" where
  "py_min_from key best [] = best"
| "py_min_from key best (x # xs) = py_min_from key (if key x < key best then x else best) xs"

definition py_min :: "('a \<Rightarrow> 'b::linorder) \<Rightarrow> 'a list \<Rightarrow> error + 'a" where
  "py_min key xs = (case xs of [] \<Rightarrow> Inl ValueError | x # rest \<Rightarrow> Inr (py_min_from key x rest))"

text \<open>Indexing \<open>xs[i]\<close>, with Python's wrap of negative indices and its \<open>IndexError\<close>.\<close>

definition py_getitem :: "'a list \<Rightarrow> int \<Rightarrow> error + 'a" where
  "py_getitem xs i =
     (if 0 \<le> i \<and> i < int (length xs) then Inr (xs ! nat i)
      else if - int (length xs) \<le> i \<and> i < 0 then Inr (xs ! nat (int (length xs) + i))
      else Inl IndexError)"

subsection \<open>Selection policies\<close>

text \<open>
  \<open>_round_robin_select\<close>: the cursor is read modulo the length of the list it is given
  and then incremented. Python's \<open>%\<close> with a positive divisor is the floor modulus,
  as \<open>mod\<close> on \<open>int\<close> is.
\<close>

definition round_robin_select ::
  "LoadBalancer \<Rightarrow> ServerMetrics list \<Rightarrow> error + (LoadBalancer \<times> ServerMetrics option)" where
  "round_robin_select lb srvs =
     (if srvs = [] then Inr (lb, None)
      else case py_getitem srvs (round_robin_index lb mod int (length srvs)) of
             Inl e \<Rightarrow> Inl e
           | Inr server \<Rightarrow>
               Inr (lb\<lparr>round_robin_index := round_robin_index lb + 1\<rparr>, Some server))"

definition least_connections_select :: "ServerMetrics list \<Rightarrow> error + ServerMetrics" where
  "least_connections_select srvs = py_min active_connections srvs"

text \<open>
  The floating-point arithmetic of the interpreter: addition, subtraction and division of
  two floats, and the built-in \<open>sum\<close> of a sequence of floats, each giving the float the
  interpreter computes (the exact result, rounded). Nothing is fixed about the rounding
  here; what a property needs of it is stated where it is needed.
\<close>

record float_ops =
  fl_add :: "real \<Rightarrow> real \<Rightarrow> real"
  fl_sub :: "real \<Rightarrow> real \<Rightarrow> real"
  fl_div :: "real \<Rightarrow> real \<Rightarrow> real"
  fl_sum :: "real list \<Rightarrow> real"

text \<open>The literal \<open>0.1\<close>: the double nearest to one tenth. The literals \<open>1.0\<close>,
  \<open>2.0\<close> and \<open>100.0\<close> are exact.\<close>

definition double_0_1 :: real where
  "double_0_1 = 3602879701896397 / 36028797018963968"

text \<open>
  The two weighted policies first overwrite the \<open>weight\<close> of every server they are given
  and then take the maximum. They return the list of updated servers together with the
  selected one.
\<close>

definition latency_weight :: "float_ops \<Rightarrow> ServerMetrics \<Rightarrow> ServerMetrics" where
  "latency_weight fl server =
     (if last_latency_ms server > 0
      then server\<lparr>weight := fl_div fl 1 (last_latency_ms server)\<rparr>
      else server\<lparr>weight := 1\<rparr>)"

definition latency_weighted_select ::
  "float_ops \<Rightarrow> ServerMetrics list \<Rightarrow> error + (ServerMetrics list \<times> ServerMetrics option)" where
  "latency_weighted_select fl srvs =
     (if srvs = [] then Inr (srvs, None)
      else
        let srvs' = map (latency_weight fl) srvs;
            total_weight = fl_sum fl (map weight srvs')
        in if total_weight = 0 then
             (case py_getitem srvs' 0 of Inl e \<Rightarrow> Inl e | Inr s \<Rightarrow> Inr (srvs', Some s))
           else
             (case py_max weight srvs' of Inl e \<Rightarrow> Inl e | Inr s \<Rightarrow> Inr (srvs', Some s)))"

definition performance_weight :: "float_ops \<Rightarrow> ServerMetrics \<Rightarrow> ServerMetrics" where
  "performance_weight fl server =
     (let cpu_weight = max double_0_1 (fl_sub fl 1 (fl_div fl (cpu_percent server) 100));
          memory_weight = max double_0_1 (fl_sub fl 1 (fl_div fl (memory_percent server) 100))
      in server\<lparr>weight := fl_div fl (fl_add fl cpu_weight memory_weight) 2\<rparr>)"

definition weighted_round_robin_select ::
  "float_ops \<Rightarrow> ServerMetrics list \<Rightarrow> error + (ServerMetrics list \<times> ServerMetrics)" where
  "weighted_round_robin_select fl srvs =
     (let srvs' = map (performance_weight fl) srvs
      in case py_max weight srvs' of Inl e \<Rightarrow> Inl e | Inr s \<Rightarrow> Inr (srvs', s))"

text \<open>
  \<open>healthy_servers\<close> holds the healthy objects of the registry themselves, so the weights
  written by a policy are visible in the registry afterwards: \<open>write_back\<close> puts the
  updated healthy servers back at the positions they were taken from.
\<close>

fun write_back ::
  "(string \<times> ServerMetrics) list \<Rightarrow> ServerMetrics list \<Rightarrow> (string \<times> ServerMetrics) list" where
  "write_back [] upd = []"
| "write_back ((k, s) # reg) upd =
     (if healthy s then
        (case upd of [] \<Rightarrow> (k, s) # write_back reg []
                   | u # upd' \<Rightarrow> (k, u) # write_back reg upd')
      else (k, s) # write_back reg upd)"

definition get_healthy_servers :: "LoadBalancer \<Rightarrow> ServerMetrics list" where
  "get_healthy_servers lb = filter healthy (map snd (servers lb))"

text \<open>
  \<open>select_server\<close>. The enumeration has exactly the four members dispatched on, so the
  final \<open>else\<close> branch of the source (\<open>healthy_servers[0]\<close>) has no case here.
\<close>

definition select_server ::
  "float_ops \<Rightarrow> LoadBalancer \<Rightarrow> error + (LoadBalancer \<times> ServerMetrics option)" where
  "select_server fl lb =
     (let healthy_servers = filter healthy (map snd (servers lb))
      in if healthy_servers = [] then Inr (lb, None)
         else case current_algorithm lb of
           ROUND_ROBIN \<Rightarrow> round_robin_select lb healthy_servers
         | LEAST_CONNECTIONS \<Rightarrow>
             (case least_connections_select healthy_servers of
                Inl e \<Rightarrow> Inl e
              | Inr s \<Rightarrow> Inr (lb, Some s))
         | LATENCY_WEIGHTED \<Rightarrow>
             (case latency_weighted_select fl healthy_servers of
                Inl e \<Rightarrow> Inl e
              | Inr (srvs', r) \<Rightarrow> Inr (lb\<lparr>servers := write_back (servers lb) srvs'\<rparr>, r))
         | WEIGHTED_ROUND_ROBIN \<Rightarrow>
             (case weighted_round_robin_select fl healthy_servers of
                Inl e \<Rightarrow> Inl e
              | Inr (srvs', s) \<Rightarrow> Inr (lb\<lparr>servers := write_back (servers lb) srvs'\<rparr>, Some s)))"

text \<open>Repeated selection, as a caller issuing \<open>n\<close> requests in a row does.\<close>

fun select_many ::
  "float_ops \<Rightarrow> nat \<Rightarrow> LoadBalancer \<Rightarrow> error + (LoadBalancer \<times> ServerMetrics option list)" where
  "select_many fl 0 lb = Inr (lb, [])"
| "select_many fl (Suc n) lb =
     (case select_server fl lb of
        Inl e \<Rightarrow> Inl e
      | Inr (lb', r) \<Rightarrow>
          (case select_many fl n lb' of
             Inl e \<Rightarrow> Inl e
           | Inr (lb'', rs) \<Rightarrow> Inr (lb'', r # rs)))"

subsection \<open>Construction and request recording\<close>

text \<open>
  \<open>LoadBalancer.__init__\<close>: one registry entry and one counter per configured pair, in
  the order of the configuration. The health-monitor thread it starts is modelled separately,
  by the single probe step \<open>check_server_health\<close> below.
\<close>

definition add_server :: "LoadBalancer \<Rightarrow> string \<times> int \<Rightarrow> LoadBalancer" where
  "add_server lb = (\<lambda>(i, p).
     let sid = format_server_id i p
     in lb\<lparr>servers := AList.update sid (new_ServerMetrics i p) (servers lb),
           request_counts := AList.update sid 0 (request_counts lb)\<rparr>)"

definition LoadBalancer_init :: "(string \<times> int) list \<Rightarrow> LoadBalancer" where
  "LoadBalancer_init srvs =
     foldl add_server
       \<lparr>servers = [], current_algorithm = ROUND_ROBIN, round_robin_index = 0,
        health_check_interval = 5, request_counts = []\<rparr> srvs"

definition set_algorithm :: "LoadBalancer \<Rightarrow> LoadBalancingAlgorithm \<Rightarrow> LoadBalancer" where
  "set_algorithm lb algorithm = lb\<lparr>current_algorithm := algorithm\<rparr>"

text \<open>\<open>d.get(k, default)\<close> on a dictionary.\<close>

definition dict_get :: "('k \<times> 'v) list \<Rightarrow> 'k \<Rightarrow> 'v \<Rightarrow> 'v" where
  "dict_get d k dflt = (case map_of d k of None \<Rightarrow> dflt | Some v \<Rightarrow> v)"

definition record_request :: "LoadBalancer \<Rightarrow> string \<Rightarrow> real \<Rightarrow> LoadBalancer" where
  "record_request lb sid latency_ms =
     (if sid \<in> set (map fst (servers lb)) then
        let servers1 = AList.map_entry sid (\<lambda>s. s\<lparr>last_latency_ms := latency_ms\<rparr>) (servers lb);
            servers2 = AList.map_entry sid (\<lambda>s. s\<lparr>total_requests := total_requests s + 1\<rparr>) servers1
        in lb\<lparr>servers := servers2,
              request_counts :=
                AList.update sid (dict_get (request_counts lb) sid 0 + 1) (request_counts lb)\<rparr>
      else lb)"

subsection \<open>Health probe of one server\<close>

text \<open>
  What the environment answers to one probe: \<open>requests.get\<close> raises (timeout,
  connection error), or a response arrives. The body of a response is abstracted to what
  the code inspects: whether \<open>response.json()\<close> succeeds, whether the parsed value is a
  dictionary, and whether its \<open>metrics\<close> member is a dictionary; the members of
  \<open>metrics\<close> are numbers, as the float fields they are stored in declare.
\<close>

datatype metrics_json = MetricsObject "(string \<times> real) list" | MetricsNotObject

datatype health_json = HealthObject "(string \<times> metrics_json) list" | HealthNotObject

record response =
  status_code :: int
  json_body :: "health_json option"

datatype probe =
    RequestFailed
  | Responded response real real

text \<open>
  The body of the \<open>try\<close> block: the server as it is when the block ends, and the exception
  that ended it, if any. Assignments made before a raise stay in effect.
  \<open>Responded resp latency_ms now\<close> carries the response, the measured round-trip time and
  the clock value read for \<open>last_health_check\<close>.
\<close>

definition health_try_body :: "ServerMetrics \<Rightarrow> probe \<Rightarrow> ServerMetrics \<times> error option" where
  "health_try_body server p =
     (case p of
        RequestFailed \<Rightarrow> (server, Some RequestException)
      | Responded resp latency_ms now \<Rightarrow>
          if status_code resp = 200 then
            let server1 = server\<lparr>healthy := True, last_latency_ms := latency_ms,
                                 last_health_check := now\<rparr>
            in (case json_body resp of
                  None \<Rightarrow> (server1, Some ValueError)
                | Some HealthNotObject \<Rightarrow> (server1, Some AttributeError)
                | Some (HealthObject health_data) \<Rightarrow>
                    (case dict_get health_data ''metrics'' (MetricsObject []) of
                       MetricsNotObject \<Rightarrow> (server1, Some AttributeError)
                     | MetricsObject metrics \<Rightarrow>
                         (server1\<lparr>cpu_percent := dict_get metrics ''cpu_percent'' 0,
                                  memory_percent := dict_get metrics ''memory_percent'' 0\<rparr>,
                          None)))
          else (server\<lparr>healthy := False\<rparr>, None))"

definition check_server_health :: "ServerMetrics \<Rightarrow> probe \<Rightarrow> ServerMetrics" where
  "check_server_health server p =
     (case health_try_body server p of
        (server', None) \<Rightarrow> server'
      | (server', Some e) \<Rightarrow> server'\<lparr>healthy := False\<rparr>)"

text \<open>
  The outcomes the specification calls a probe failure: the request itself fails, the
  status is not a 2xx one, or the body of a 2xx response is not the expected JSON.
\<close>

definition body_parses :: "health_json option \<Rightarrow> bool" where
  "body_parses b =
     (case b of
        Some (HealthObject health_data) \<Rightarrow>
          (case dict_get health_data ''metrics'' (MetricsObject []) of
             MetricsObject metrics \<Rightarrow> True
           | MetricsNotObject \<Rightarrow> False)
      | _ \<Rightarrow> False)"

definition probe_failure :: "probe \<Rightarrow> bool" where
  "probe_failure p =
     (case p of
        RequestFailed \<Rightarrow> True
      | Responded resp latency_ms now \<Rightarrow>
          \<not> (200 \<le> status_code resp \<and> status_code resp < 300) \<or> \<not> body_parses (json_body resp))"

section \<open>The controller (controller/ryu\_lb\_basic.py)\<close>

subsection \<open>Parsing the backend list\<close>

text \<open>\<open>s.split(c)\<close> for a one-character separator: always at least one piece.\<close>

fun split_on :: "char \<Rightarrow> string \<Rightarrow> string list" where
  "split_on c [] = [[]]"
| "split_on c (x # xs) =
     (if x = c then [] # split_on c xs
      else case split_on c xs of
             [] \<Rightarrow> [[x]]
           | w # ws \<Rightarrow> (x # w) # ws)"

text \<open>
  \<open>s.strip()\<close> removes from both ends the characters for which \<open>str.isspace\<close> holds.
  A character of the model is a code point below 256; among these the whitespace ones are
  U+0009 to U+000D, U+001C to U+0020, U+0085 and U+00A0.
\<close>

definition py_isspace :: "char \<Rightarrow> bool" where
  "py_isspace c =
     ((of_char c :: nat) \<in> {9, 10, 11, 12, 13, 28, 29, 30, 31, 32, 133, 160})"

definition py_strip :: "string \<Rightarrow> string" where
  "py_strip s = rev (dropWhile py_isspace (rev (dropWhile py_isspace s)))"

text \<open>
  The loop of \<open>_parse_servers\<close>. The built-in \<open>int\<close> is a parameter \<open>py_int\<close>:
  \<open>None\<close> stands for its \<open>ValueError\<close>. Unpacking \<open>ip, port = ...\<close> raises
  \<open>ValueError\<close> unless the split yields exactly two pieces. The second component of the
  state is the list of entries reported by \<open>logger.error\<close>.
\<close>

fun parse_servers_loop ::
  "(string \<Rightarrow> int option) \<Rightarrow> string list \<Rightarrow> (string \<times> int) list \<times> string list \<Rightarrow>
     (string \<times> int) list \<times> string list" where
  "parse_servers_loop py_int [] (srvs, logged) = (srvs, logged)"
| "parse_servers_loop py_int (server_str # rest) (srvs, logged) =
     (case split_on CHR '':'' (py_strip server_str) of
        [i, p] \<Rightarrow>
          (case py_int p of
             Some n \<Rightarrow> parse_servers_loop py_int rest (srvs @ [(i, n)], logged)
           | None \<Rightarrow> parse_servers_loop py_int rest (srvs, logged @ [server_str]))
      | _ \<Rightarrow> parse_servers_loop py_int rest (srvs, logged @ [server_str]))"

definition parse_servers_logged ::
  "(string \<Rightarrow> int option) \<Rightarrow> string \<Rightarrow> (string \<times> int) list \<times> string list" where
  "parse_servers_logged py_int servers_env =
     (if servers_env = [] then ([(''127.0.0.1'', 5001), (''127.0.0.1'', 5002)], [])
      else parse_servers_loop py_int (split_on CHR '','' servers_env) ([], []))"

definition parse_servers :: "(string \<Rightarrow> int option) \<Rightarrow> string \<Rightarrow> (string \<times> int) list" where
  "parse_servers py_int servers_env = fst (parse_servers_logged py_int servers_env)"

text \<open>
  A plain decimal reading of a port, used to run the parser on concrete inputs: one or
  more ASCII digits, on which every implementation of \<open>int\<close> agrees.
\<close>

definition is_digit :: "char \<Rightarrow> bool" where
  "is_digit c = (48 \<le> (of_char c :: nat) \<and> (of_char c :: nat) \<le> 57)"

definition decimal_int :: "string \<Rightarrow> int option" where
  "decimal_int s =
     (if s \<noteq> [] \<and> list_all is_digit s
      then Some (foldl (\<lambda>a c. 10 * a + (int (of_char c) - 48)) 0 s)
      else None)"

text \<open>
  What the specification calls a well-formed entry: after stripping, exactly one colon, and a port
  that \<open>int\<close> accepts; and the pair such an entry denotes.
\<close>

definition entry_pair :: "(string \<Rightarrow> int option) \<Rightarrow> string \<Rightarrow> (string \<times> int) option" where
  "entry_pair py_int server_str =
     (case split_on CHR '':'' (py_strip server_str) of
        [i, p] \<Rightarrow> (case py_int p of Some n \<Rightarrow> Some (i, n) | None \<Rightarrow> None)
      | _ \<Rightarrow> None)"

definition well_formed_entry :: "(string \<Rightarrow> int option) \<Rightarrow> string \<Rightarrow> bool" where
  "well_formed_entry py_int server_str = (entry_pair py_int server_str \<noteq> None)"

subsection \<open>Construction of the application\<close>

record SDNLoadBalancer =
  load_balancer :: "LoadBalancer option"
  virtual_ip :: string
  virtual_port :: int

text \<open>
  \<open>SDNLoadBalancer.__init__\<close>, from the four environment variables it reads
  (\<open>None\<close>: unset). \<open>int(os.getenv('VIRTUAL_PORT', 80))\<close> can raise before the
  backend list is parsed; the registry is built only when the parsed list is not empty;
  \<open>start_management_api\<close> then reads \<open>int(os.getenv('API_PORT', 8080))\<close>, which can
  raise as well. The API server itself is not part of the model.
\<close>

definition SDNLoadBalancer_init ::
  "(string \<Rightarrow> int option) \<Rightarrow> string option \<Rightarrow> string option \<Rightarrow> string option \<Rightarrow>
     string option \<Rightarrow> error + SDNLoadBalancer" where
  "SDNLoadBalancer_init py_int env_virtual_ip env_virtual_port env_backend_servers env_api_port =
     (case (case env_virtual_port of None \<Rightarrow> Some 80 | Some s \<Rightarrow> py_int s) of
        None \<Rightarrow> Inl ValueError
      | Some vport \<Rightarrow>
          let srvs = parse_servers py_int (case env_backend_servers of None \<Rightarrow> [] | Some s \<Rightarrow> s);
              app = \<lparr>load_balancer = (if srvs \<noteq> [] then Some (LoadBalancer_init srvs) else None),
                     virtual_ip = (case env_virtual_ip of None \<Rightarrow> ''10.0.0.100'' | Some s \<Rightarrow> s),
                     virtual_port = vport\<rparr>
          in case (case env_api_port of None \<Rightarrow> Some 8080 | Some s \<Rightarrow> py_int s) of
               None \<Rightarrow> Inl ValueError
             | Some api_port \<Rightarrow> Inr app)"

subsection \<open>OpenFlow messages\<close>

text \<open>The numeric constants are those of OpenFlow 1.3 and of the Ethernet type registry.\<close>

definition OFPP_CONTROLLER :: nat where "OFPP_CONTROLLER = 0xfffffffd"
definition OFPP_FLOOD :: nat where "OFPP_FLOOD = 0xfffffffb"
definition OFPCML_NO_BUFFER :: nat where "OFPCML_NO_BUFFER = 0xffff"
definition OFPCML_MAX :: nat where "OFPCML_MAX = 0xffe5"
definition OFPIT_APPLY_ACTIONS :: nat where "OFPIT_APPLY_ACTIONS = 4"
definition ETH_TYPE_IP :: nat where "ETH_TYPE_IP = 0x0800"
definition ETH_TYPE_LLDP :: nat where "ETH_TYPE_LLDP = 0x88cc"

record OFPMatch =
  in_port :: "nat option"
  eth_type :: "nat option"
  ipv4_src :: "string option"
  ipv4_dst :: "string option"

text \<open>\<open>OFPActionOutput port max_len\<close>; \<open>max_len\<close> defaults to \<open>OFPCML_MAX\<close>.\<close>

datatype OFPAction =
    OFPActionSetField_ipv4_src string
  | OFPActionSetField_ipv4_dst string
  | OFPActionOutput nat nat

datatype OFPInstruction = OFPInstructionActions nat "OFPAction list"

record ipv4_hdr =
  src :: string
  dst :: string

text \<open>A parsed packet: the Ethernet types of its Ethernet headers, and its first IPv4
  header if it has one.\<close>

record packet =
  ethernets :: "nat list"
  ipv4 :: "ipv4_hdr option"

datatype message =
    OFPFlowMod (fm_buffer_id: "nat option") (fm_priority: nat) (fm_match: OFPMatch)
               (fm_instructions: "OFPInstruction list")
  | OFPPacketOut (po_buffer_id: nat) (po_in_port: nat) (po_actions: "OFPAction list")
                 (po_data: packet)

record packet_in =
  msg_in_port :: nat
  msg_buffer_id :: nat
  msg_data :: packet

text \<open>\<open>add_flow\<close>: a buffer id that is \<open>None\<close> or zero is left out of the message.\<close>

definition add_flow :: "nat \<Rightarrow> OFPMatch \<Rightarrow> OFPAction list \<Rightarrow> nat option \<Rightarrow> message" where
  "add_flow priority match actions buffer_id =
     (let inst = [OFPInstructionActions OFPIT_APPLY_ACTIONS actions]
      in case buffer_id of
           None \<Rightarrow> OFPFlowMod None priority match inst
         | Some b \<Rightarrow> if b \<noteq> 0 then OFPFlowMod (Some b) priority match inst
                     else OFPFlowMod None priority match inst)"

definition OFPMatch_any :: OFPMatch where
  "OFPMatch_any = \<lparr>in_port = None, eth_type = None, ipv4_src = None, ipv4_dst = None\<rparr>"

text \<open>Each handler returns the messages it sends to the switch, in order.\<close>

definition switch_features_handler :: "message list" where
  "switch_features_handler =
     [add_flow 0 OFPMatch_any [OFPActionOutput OFPP_CONTROLLER OFPCML_NO_BUFFER] None]"

definition install_load_balance_flow ::
  "SDNLoadBalancer \<Rightarrow> nat \<Rightarrow> string \<Rightarrow> ServerMetrics \<Rightarrow> message list" where
  "install_load_balance_flow app inport client_ip server =
     (let match_forward = \<lparr>in_port = Some inport, eth_type = Some ETH_TYPE_IP,
                            ipv4_src = Some client_ip, ipv4_dst = Some (virtual_ip app)\<rparr>;
          actions_forward = [OFPActionSetField_ipv4_dst (ip server),
                             OFPActionOutput 2 OFPCML_MAX];
          match_return = \<lparr>in_port = Some 2, eth_type = Some ETH_TYPE_IP,
                           ipv4_src = Some (ip server), ipv4_dst = Some client_ip\<rparr>;
          actions_return = [OFPActionSetField_ipv4_src (virtual_ip app),
                            OFPActionOutput inport OFPCML_MAX]
      in [add_flow 10 match_forward actions_forward None,
          add_flow 10 match_return actions_return None])"

text \<open>
  \<open>packet_in_handler\<close>. Without a registry nothing is sent; an LLDP frame is ignored;
  every other packet is flooded, after the two rules when a backend was selected for a
  packet to the virtual address. The request counter of the metrics library and the log
  are not part of the model.
\<close>

definition packet_in_handler ::
  "float_ops \<Rightarrow> SDNLoadBalancer \<Rightarrow> packet_in \<Rightarrow> error + (SDNLoadBalancer \<times> message list)" where
  "packet_in_handler fl app msg =
     (case load_balancer app of
        None \<Rightarrow> Inr (app, [])
      | Some lb \<Rightarrow>
          (case py_getitem (ethernets (msg_data msg)) 0 of
             Inl e \<Rightarrow> Inl e
           | Inr ethertype \<Rightarrow>
               if ethertype = ETH_TYPE_LLDP then Inr (app, [])
               else
                 let out = OFPPacketOut (msg_buffer_id msg) (msg_in_port msg)
                             [OFPActionOutput OFPP_FLOOD OFPCML_MAX] (msg_data msg)
                 in if ethertype = ETH_TYPE_IP then
                      (case ipv4 (msg_data msg) of
                         None \<Rightarrow> Inr (app, [out])
                       | Some iph \<Rightarrow>
                           if dst iph = virtual_ip app then
                             (case select_server fl lb of
                                Inl e \<Rightarrow> Inl e
                              | Inr (lb', None) \<Rightarrow> Inr (app\<lparr>load_balancer := Some lb'\<rparr>, [out])
                              | Inr (lb', Some selected_server) \<Rightarrow>
                                  Inr (app\<lparr>load_balancer := Some lb'\<rparr>,
                                       install_load_balance_flow app (msg_in_port msg) (src iph)
                                         selected_server @ [out]))
                           else Inr (app, [out]))
                    else Inr (app, [out])))"

section \<open>Notions of the specification and sample inputs\<close>



text \<open>
  An instance of the floating-point operations, used to run the policies on concrete
  inputs: IEEE 754 double precision with rounding to nearest, ties to even, where
  \<open>sum\<close> adds from left to right starting at 0 (an interpreter that compensates
  the sum differs in the last bits of a total; the policy only asks whether the total is
  zero). \<open>double_round\<close> rounds to 53 significant bits; it is the rounding of
  doubles for results in the normal range (magnitude from \<open>2^-1022\<close> up to the
  largest double), which the inputs used below stay in.
\<close>

definition round_half_even :: "real \<Rightarrow> int" where
  "round_half_even y =
     (let f = \<lfloor>y\<rfloor>
      in if y - of_int f < 1 / 2 then f
         else if 1 / 2 < y - of_int f then f + 1
         else if even f then f else f + 1)"

definition double_round :: "real \<Rightarrow> real" where
  "double_round x =
     (if x = 0 then 0
      else let e = \<lfloor>log 2 \<bar>x\<bar>\<rfloor>
           in of_int (round_half_even (x / 2 powi (e - 52))) * 2 powi (e - 52))"

definition double_ops :: float_ops where
  "double_ops =
     \<lparr>fl_add = (\<lambda>a b. double_round (a + b)),
      fl_sub = (\<lambda>a b. double_round (a - b)),
      fl_div = (\<lambda>a b. double_round (a / b)),
      fl_sum = foldl (\<lambda>a w. double_round (a + w)) 0\<rparr>"

text \<open>The three backends of the test suite, and their loads in the policy tests.\<close>

definition srv1 :: ServerMetrics where "srv1 = new_ServerMetrics ''127.0.0.1'' 5001"
definition srv2 :: ServerMetrics where "srv2 = new_ServerMetrics ''127.0.0.1'' 5002"
definition srv3 :: ServerMetrics where "srv3 = new_ServerMetrics ''127.0.0.1'' 5003"

definition loaded :: "ServerMetrics \<Rightarrow> real \<Rightarrow> real \<Rightarrow> ServerMetrics" where
  "loaded s cpu mem = s\<lparr>cpu_percent := cpu, memory_percent := mem\<rparr>"

definition with_latency :: "ServerMetrics \<Rightarrow> real \<Rightarrow> ServerMetrics" where
  "with_latency s l = s\<lparr>last_latency_ms := l\<rparr>"

definition unhealthy :: "ServerMetrics \<Rightarrow> ServerMetrics" where
  "unhealthy s = s\<lparr>healthy := False\<rparr>"

text \<open>A registry holding three given descriptors under the identifiers of the test suite.\<close>

definition test_registry ::
  "ServerMetrics \<Rightarrow> ServerMetrics \<Rightarrow> ServerMetrics \<Rightarrow> LoadBalancer" where
  "test_registry a b c =
     \<lparr>servers = [(''127.0.0.1:5001'', a), (''127.0.0.1:5002'', b), (''127.0.0.1:5003'', c)],
      current_algorithm = ROUND_ROBIN, round_robin_index = 0, health_check_interval = 5,
      request_counts = [(''127.0.0.1:5001'', 0), (''127.0.0.1:5002'', 0),
                        (''127.0.0.1:5003'', 0)]\<rparr>"

text \<open>Which messages install a flow rule.\<close>

definition is_flow_mod :: "message \<Rightarrow> bool" where
  "is_flow_mod m = (case m of OFPFlowMod b p mt ins \<Rightarrow> True | OFPPacketOut b i a d \<Rightarrow> False)"

text \<open>An application over the test registry, and a first packet of a client to the
  virtual address arriving on port 1.\<close>

definition test_app :: SDNLoadBalancer where
  "test_app = \<lparr>load_balancer = Some (test_registry srv1 srv2 srv3),
               virtual_ip = ''10.0.0.100'', virtual_port = 80\<rparr>"

definition test_packet_in :: packet_in where
  "test_packet_in =
     \<lparr>msg_in_port = 1, msg_buffer_id = 7,
      msg_data = \<lparr>ethernets = [ETH_TYPE_IP],
                  ipv4 = Some \<lparr>src = ''10.0.0.1'', dst = ''10.0.0.100''\<rparr>\<rparr>\<rparr>"

section \<open>Properties of the built-ins\<close>

lemma py_max_from_in: "py_max_from key b xs \<in> set (b # xs)"
  by (induction xs arbitrary: b) auto

lemma py_max_from_ge: "y \<in> set (b # xs) \<Longrightarrow> key y \<le> key (py_max_from key b xs)"
proof (induction xs arbitrary: b y)
  case Nil
  then show ?case by simp
next
  case (Cons x xs)
  let ?b = "if key x > key b then x else b"
  have step: "py_max_from key b (x # xs) = py_max_from key ?b xs" by simp
  have b': "key ?b \<le> key (py_max_from key ?b xs)"
    by (rule Cons.IH) simp
  from Cons.prems consider "y = b" | "y = x" | "y \<in> set xs" by auto
  then show ?case
  proof cases
    case 1
    have "key b \<le> key ?b" by auto
    with b' 1 step show ?thesis by (metis order_trans)
  next
    case 2
    have "key x \<le> key ?b" by auto
    with b' 2 step show ?thesis by (metis order_trans)
  next
    case 3
    then have "key y \<le> key (py_max_from key ?b xs)" by (intro Cons.IH) simp
    with step show ?thesis by simp
  qed
qed

lemma py_max_from_first:
  "\<exists>i < length (b # xs). py_max_from key b xs = (b # xs) ! i \<and>
       (\<forall>j < i. key ((b # xs) ! j) < key ((b # xs) ! i))"
proof (induction xs arbitrary: b)
  case Nil
  then show ?case by simp
next
  case (Cons x xs)
  show ?case
  proof (cases "key x > key b")
    case True
    from Cons.IH [of x] obtain i where i: "i < length (x # xs)"
      "py_max_from key x xs = (x # xs) ! i" "\<forall>j < i. key ((x # xs) ! j) < key ((x # xs) ! i)"
      by blast
    have "key x \<le> key (py_max_from key x xs)" by (rule py_max_from_ge) simp
    with True i(2) have kb: "key b < key ((x # xs) ! i)" by simp
    have "\<forall>j < Suc i. key ((b # x # xs) ! j) < key ((b # x # xs) ! Suc i)"
    proof (intro allI impI)
      fix j assume "j < Suc i"
      then show "key ((b # x # xs) ! j) < key ((b # x # xs) ! Suc i)"
        using kb i(3) by (cases j) auto
    qed
    with i(1,2) True show ?thesis
      by (intro exI [of _ "Suc i"]) simp
  next
    case False
    from Cons.IH [of b] obtain i where i: "i < length (b # xs)"
      "py_max_from key b xs = (b # xs) ! i" "\<forall>j < i. key ((b # xs) ! j) < key ((b # xs) ! i)"
      by blast
    show ?thesis
    proof (cases i)
      case 0
      with i(2) False show ?thesis by (intro exI [of _ 0]) simp
    next
      case (Suc i')
      from i(3) Suc have kb: "key b < key (xs ! i')" by fastforce
      with False have kx: "key x < key (xs ! i')" by simp
      have "\<forall>j < Suc (Suc i'). key ((b # x # xs) ! j) < key ((b # x # xs) ! Suc (Suc i'))"
      proof (intro allI impI)
        fix j assume j: "j < Suc (Suc i')"
        show "key ((b # x # xs) ! j) < key ((b # x # xs) ! Suc (Suc i'))"
        proof (cases j)
          case 0
          with kb show ?thesis by simp
        next
          case (Suc j')
          show ?thesis
          proof (cases j')
            case 0
            with Suc kx show ?thesis by simp
          next
            case (Suc j'')
            with \<open>j = Suc j'\<close> j have "Suc j'' < i" using \<open>i = Suc i'\<close> by simp
            with i(3) have "key ((b # xs) ! Suc j'') < key ((b # xs) ! i)" by blast
            with Suc \<open>j = Suc j'\<close> \<open>i = Suc i'\<close> show ?thesis by simp
          qed
        qed
      qed
      with i(1,2) Suc False show ?thesis
        by (intro exI [of _ "Suc (Suc i')"]) simp
    qed
  qed
qed

lemma py_max_nonempty:
  assumes "xs \<noteq> []"
  shows "\<exists>i < length xs. py_max key xs = Inr (xs ! i) \<and>
           (\<forall>j < length xs. key (xs ! j) \<le> key (xs ! i)) \<and>
           (\<forall>j < i. key (xs ! j) < key (xs ! i))"
proof -
  from assms obtain b rest where xs: "xs = b # rest" by (cases xs) auto
  from py_max_from_first [of b rest key] obtain i where i: "i < length (b # rest)"
    "py_max_from key b rest = (b # rest) ! i"
    "\<forall>j < i. key ((b # rest) ! j) < key ((b # rest) ! i)" by blast
  have "\<forall>j < length xs. key (xs ! j) \<le> key (xs ! i)"
  proof (intro allI impI)
    fix j assume "j < length xs"
    then have "xs ! j \<in> set (b # rest)" using xs nth_mem by metis
    then have "key (xs ! j) \<le> key (py_max_from key b rest)" by (rule py_max_from_ge)
    with i(2) xs show "key (xs ! j) \<le> key (xs ! i)" by simp
  qed
  with i xs show ?thesis by (auto simp: py_max_def)
qed

section \<open>Rounding to double precision\<close>

lemma double_round_0: "double_round 0 = 0"
  by (simp add: double_round_def)

text \<open>
  Rounding a value whose magnitude, scaled by \<open>2^k\<close>, lies between \<open>2^52\<close> and
  \<open>2^53\<close>: the scaled value is rounded to an integer, ties to even.
\<close>

lemma double_round_scaled:
  assumes "2 ^ 52 \<le> \<bar>x\<bar> * 2 ^ k" and "\<bar>x\<bar> * 2 ^ k < 2 ^ 53"
  shows "double_round x = of_int (round_half_even (x * 2 ^ k)) / 2 ^ k"
proof -
  from assms(1) have nz: "x \<noteq> 0" by auto
  then have pos: "0 < \<bar>x\<bar>" by simp
  have p: "(2::real) powr (52 - real k) = 2 ^ 52 / 2 ^ k"
    "(2::real) powr (53 - real k) = 2 ^ 53 / 2 ^ k"
    by (simp_all add: powr_diff powr_realpow)
  have "(2::real) powr (of_int (52 - int k)) \<le> \<bar>x\<bar>"
    using assms(1) by (simp add: p field_simps)
  moreover have "\<bar>x\<bar> < (2::real) powr (of_int (52 - int k + 1))"
    using assms(2) by (simp add: p field_simps)
  ultimately have e: "\<lfloor>log 2 \<bar>x\<bar>\<rfloor> = 52 - int k"
    using pos by (simp add: floor_log_eq_powr_iff)
  have s: "(2::real) powi (- int k) = 1 / 2 ^ k"
    by (simp add: power_int_minus field_simps)
  show ?thesis
    using nz by (simp add: double_round_def e s Let_def)
qed

text \<open>The roundings that occur in the runs below.\<close>

lemma double_round_values_52:
  "double_round 1 = 1"
  "double_round (293994983674745979 / 288230376151711744) = 2296835809958953 / 2251799813685248"
  "double_round (1170935903116329 / 1125899906842624) = 1170935903116329 / 1125899906842624"
  "double_round (39631676720860365 / 36028797018963968) = 2476979795053773 / 2251799813685248"
  "double_round (2573485501354569 / 2251799813685248) = 2573485501354569 / 2251799813685248"
  "double_round (11709359031163289 / 9007199254740992) = 1463669878895411 / 1125899906842624"
  "double_round (7656119366529843 / 4503599627370496) = 7656119366529843 / 4503599627370496"
  "double_round (15312238733059687 / 9007199254740992) = 1914029841632461 / 1125899906842624"
  by (simp_all add: double_round_scaled [where k = 52] round_half_even_def)

lemma double_round_values_53:
  "double_round (1 / 2) = 1 / 2"
  "double_round (1170935903116329 / 2251799813685248) = 1170935903116329 / 2251799813685248"
  "double_round (2476979795053773 / 4503599627370496) = 2476979795053773 / 4503599627370496"
  "double_round (4503599627370496 / 7881299347898369) = 2573485501354569 / 4503599627370496"
  "double_round (2573485501354569 / 4503599627370496) = 2573485501354569 / 4503599627370496"
  "double_round (4 / 7) = 2573485501354569 / 4503599627370496"
  "double_round (5404319552844595 / 9007199254740992) = 5404319552844595 / 9007199254740992"
  "double_round (3 / 5) = 5404319552844595 / 9007199254740992"
  "double_round (1463669878895411 / 2251799813685248) = 1463669878895411 / 2251799813685248"
  "double_round (7 / 10) = 3152519739159347 / 4503599627370496"
  "double_round (12610078956637389 / 18014398509481984) = 3152519739159347 / 4503599627370496"
  "double_round (14411518807585587 / 18014398509481984) = 3602879701896397 / 4503599627370496"
  "double_round (4 / 5) = 3602879701896397 / 4503599627370496"
  "double_round (7656119366529843 / 9007199254740992) = 7656119366529843 / 9007199254740992"
  "double_round (30624477466119373 / 36028797018963968) = 7656119366529843 / 9007199254740992"
  "double_round (1914029841632461 / 2251799813685248) = 1914029841632461 / 2251799813685248"
  "double_round (32425917317067571 / 36028797018963968) = 8106479329266893 / 9007199254740992"
  "double_round (8106479329266893 / 9007199254740992) = 8106479329266893 / 9007199254740992"
  by (simp_all add: double_round_scaled [where k = 53] round_half_even_def)

lemma double_round_values_54:
  "double_round (1 / 4) = 1 / 4"
  "double_round (3 / 10) = 5404319552844595 / 18014398509481984"
  "double_round (1351079888211149 / 4503599627370496) = 1351079888211149 / 4503599627370496"
  "double_round (2 / 5) = 3602879701896397 / 9007199254740992"
  "double_round (3602879701896397 / 9007199254740992) = 3602879701896397 / 9007199254740992"
  "double_round (8106479329266893 / 18014398509481984) = 8106479329266893 / 18014398509481984"
  "double_round (12 / 25) = 1080863910568919 / 2251799813685248"
  by (simp_all add: double_round_scaled [where k = 54] round_half_even_def)

lemma double_round_values_55:
  "double_round (3 / 20) = 5404319552844595 / 36028797018963968"
  "double_round (900719925474099 / 4503599627370496) = 900719925474099 / 4503599627370496"
  "double_round (1 / 5) = 3602879701896397 / 18014398509481984"
  by (simp_all add: double_round_scaled [where k = 55] round_half_even_def)

lemma double_round_values_56:
  "double_round (1 / 10) = 3602879701896397 / 36028797018963968"
  by (simp_all add: double_round_scaled [where k = 56] round_half_even_def)

lemma double_round_values_57:
  "double_round (24979965933148351 / 576460752303423488) = 390311967705443 / 9007199254740992"
  by (simp_all add: double_round_scaled [where k = 57] round_half_even_def)

lemma double_round_values_58:
  "double_round (1 / 50) = 5764607523034235 / 288230376151711744"
  "double_round (17293822569102705 / 576460752303423488) = 1080863910568919 / 36028797018963968"
  by (simp_all add: double_round_scaled [where k = 58] round_half_even_def)

lemma double_round_values_59:
  "double_round (1 / 100) = 5764607523034235 / 576460752303423488"
  "double_round (5764607523034235 / 576460752303423488) = 5764607523034235 / 576460752303423488"
  "double_round (1 / 75) = 7686143364045647 / 576460752303423488"
  by (simp_all add: double_round_scaled [where k = 59] round_half_even_def)

lemmas double_round_values = double_round_0 double_round_values_52 double_round_values_53 double_round_values_54 double_round_values_55 double_round_values_56 double_round_values_57 double_round_values_58 double_round_values_59

section \<open>Weighted round-robin selection\<close>

lemma performance_weight_fields:
  "performance_weight fl s =
     s\<lparr>weight :=
         fl_div fl
           (fl_add fl (max double_0_1 (fl_sub fl 1 (fl_div fl (cpu_percent s) 100)))
                      (max double_0_1 (fl_sub fl 1 (fl_div fl (memory_percent s) 100)))) 2\<rparr>"
  by (simp add: performance_weight_def Let_def)



lemmas srv_defs = srv1_def srv2_def srv3_def loaded_def with_latency_def unhealthy_def
  new_ServerMetrics_def

lemma weighted_round_robin_select_nonempty:
  assumes "srvs \<noteq> []"
  shows "\<exists>i < length srvs.
           weighted_round_robin_select fl srvs =
             Inr (map (performance_weight fl) srvs, performance_weight fl (srvs ! i)) \<and>
           (\<forall>j < length srvs.
              weight (performance_weight fl (srvs ! j))
                \<le> weight (performance_weight fl (srvs ! i))) \<and>
           (\<forall>j < i.
              weight (performance_weight fl (srvs ! j))
                < weight (performance_weight fl (srvs ! i)))"
proof -
  let ?ws = "map (performance_weight fl) srvs"
  from assms have ne: "?ws \<noteq> []" by simp
  from py_max_nonempty [OF ne, of weight] obtain i where i: "i < length ?ws"
    "py_max weight ?ws = Inr (?ws ! i)"
    "\<forall>j < length ?ws. weight (?ws ! j) \<le> weight (?ws ! i)"
    "\<forall>j < i. weight (?ws ! j) < weight (?ws ! i)" by blast
  from i(1) have il: "i < length srvs" by simp
  have sel: "weighted_round_robin_select fl srvs = Inr (?ws, performance_weight fl (srvs ! i))"
    using i(2) il by (simp add: weighted_round_robin_select_def)
  have le: "\<forall>j < length srvs.
      weight (performance_weight fl (srvs ! j)) \<le> weight (performance_weight fl (srvs ! i))"
    using i(3) il by simp
  have lt: "\<forall>j < i.
      weight (performance_weight fl (srvs ! j)) < weight (performance_weight fl (srvs ! i))"
    using i(4) il by simp
  from il sel le lt show ?thesis by blast
qed


text \<open>The weights that double arithmetic gives the loads used below.\<close>

lemma double_performance_weights:
  "weight (performance_weight double_ops (loaded srv1 80 70)) = 1 / 4"
  "weight (performance_weight double_ops (loaded srv2 30 40)) =
     1463669878895411 / 2251799813685248"
  "weight (performance_weight double_ops (loaded srv3 60 50)) =
     8106479329266893 / 18014398509481984"
  "weight (performance_weight double_ops (loaded srv1 100 0)) =
     2476979795053773 / 4503599627370496"
  "weight (performance_weight double_ops (loaded srv2 48 48)) =
     1170935903116329 / 2251799813685248"
  "weight (performance_weight double_ops (loaded srv1 15 15)) =
     7656119366529843 / 9007199254740992"
  "weight (performance_weight double_ops (loaded srv2 10 20)) =
     1914029841632461 / 2251799813685248"
  by (simp_all add: performance_weight_def double_ops_def double_0_1_def Let_def loaded_def
      max_def double_round_values)




text \<open>
  Rounding decides between servers whose weights are equal in exact arithmetic: loads of
  15 and 15 percent and of 10 and 20 percent both have exact weight 0.85, but in double
  arithmetic the second weight is one unit in the last place larger, and the second
  server is returned.
\<close>

lemma weighted_round_robin_select_rounding_example:
  "weighted_round_robin_select double_ops [loaded srv1 15 15, loaded srv2 10 20] =
     Inr ([performance_weight double_ops (loaded srv1 15 15),
           performance_weight double_ops (loaded srv2 10 20)],
          performance_weight double_ops (loaded srv2 10 20))"
  by (simp add: weighted_round_robin_select_def py_max_def double_performance_weights)

section \<open>Latency-weighted selection\<close>

lemma latency_weight_fields:
  "latency_weight fl s =
     s\<lparr>weight := (if last_latency_ms s > 0 then fl_div fl 1 (last_latency_ms s) else 1)\<rparr>"
  by (simp add: latency_weight_def)

text \<open>Whatever the arithmetic, the server returned is one of those given, with its new
  weight.\<close>

lemma latency_weighted_select_in:
  assumes "srvs \<noteq> []"
  shows "\<exists>i < length srvs.
           latency_weighted_select fl srvs =
             Inr (map (latency_weight fl) srvs, Some (latency_weight fl (srvs ! i)))"
proof -
  let ?ws = "map (latency_weight fl) srvs"
  from assms have ne: "?ws \<noteq> []" by simp
  from assms have l0: "0 < length srvs" by simp
  show ?thesis
  proof (cases "fl_sum fl (map weight ?ws) = 0")
    case True
    have "py_getitem ?ws 0 = Inr (?ws ! 0)" using l0 by (simp add: py_getitem_def)
    then have "latency_weighted_select fl srvs = Inr (?ws, Some (latency_weight fl (srvs ! 0)))"
      using True assms l0 by (simp add: latency_weighted_select_def Let_def)
    with l0 show ?thesis by blast
  next
    case False
    from py_max_nonempty [OF ne, of weight] obtain i where i: "i < length ?ws"
      "py_max weight ?ws = Inr (?ws ! i)" by blast
    from i(1) have il: "i < length srvs" by simp
    have "latency_weighted_select fl srvs = Inr (?ws, Some (latency_weight fl (srvs ! i)))"
      using i(2) il assms False by (simp add: latency_weighted_select_def Let_def)
    with il show ?thesis by blast
  qed
qed



text \<open>The weights that double arithmetic gives the latencies used below.\<close>

lemma double_latency_weights:
  "weight (latency_weight double_ops (with_latency srv1 100)) =
     5764607523034235 / 576460752303423488"
  "weight (latency_weight double_ops (with_latency srv2 50)) =
     5764607523034235 / 288230376151711744"
  "weight (latency_weight double_ops (with_latency srv3 75)) =
     7686143364045647 / 576460752303423488"
  "weight (latency_weight double_ops srv1) = 1"
  "weight (latency_weight double_ops
     (with_latency srv1 (7881299347898369 / 4503599627370496))) =
     2573485501354569 / 4503599627370496"
  "weight (latency_weight double_ops (with_latency srv2 (7 / 4))) =
     2573485501354569 / 4503599627370496"
  by (simp_all add: latency_weight_def double_ops_def srv_defs double_round_values)




text \<open>
  Rounding can hide a smaller latency: the reciprocals of 1.7500000000000002 (the double
  next above 1.75) and of 1.75 round to the same double, so the first server is returned
  although the second has the smaller latency.
\<close>

lemma latency_weighted_select_rounding_example:
  "latency_weighted_select double_ops
       [with_latency srv1 (7881299347898369 / 4503599627370496), with_latency srv2 (7 / 4)] =
     Inr (map (latency_weight double_ops)
            [with_latency srv1 (7881299347898369 / 4503599627370496), with_latency srv2 (7 / 4)],
          Some (latency_weight double_ops
            (with_latency srv1 (7881299347898369 / 4503599627370496)))) \<and>
   last_latency_ms (with_latency srv2 (7 / 4))
     < last_latency_ms (with_latency srv1 (7881299347898369 / 4503599627370496))"
proof -
  have total: "fl_sum double_ops (map weight (map (latency_weight double_ops)
      [with_latency srv1 (7881299347898369 / 4503599627370496), with_latency srv2 (7 / 4)]))
      \<noteq> 0"
    by (simp add: double_latency_weights)
       (simp add: double_ops_def double_round_values)
  have "latency_weighted_select double_ops
       [with_latency srv1 (7881299347898369 / 4503599627370496), with_latency srv2 (7 / 4)] =
     Inr (map (latency_weight double_ops)
            [with_latency srv1 (7881299347898369 / 4503599627370496), with_latency srv2 (7 / 4)],
          Some (latency_weight double_ops
            (with_latency srv1 (7881299347898369 / 4503599627370496))))"
    using total
    by (simp add: latency_weighted_select_def Let_def py_max_def double_latency_weights)
  moreover have "last_latency_ms (with_latency srv2 (7 / 4))
     < last_latency_ms (with_latency srv1 (7881299347898369 / 4503599627370496))"
    by (simp add: with_latency_def)
  ultimately show ?thesis by blast
qed

section \<open>The dispatcher select\_server\<close>

lemma py_min_from_in: "py_min_from key b xs \<in> set (b # xs)"
  by (induction xs arbitrary: b) auto

lemma py_min_in:
  assumes "xs \<noteq> []"
  shows "\<exists>x \<in> set xs. py_min key xs = Inr x"
proof -
  from assms obtain b rest where xs: "xs = b # rest" by (cases xs) auto
  with py_min_from_in [of key b rest] show ?thesis by (simp add: py_min_def)
qed

lemma py_getitem_in_range:
  assumes "k < length xs"
  shows "py_getitem xs (int k) = Inr (xs ! k)"
  using assms by (simp add: py_getitem_def)

lemma cursor_in_range:
  assumes "xs \<noteq> []"
  shows "nat (c mod int (length xs)) < length xs"
proof -
  from assms have "0 < int (length xs)" by simp
  then have "0 \<le> c mod int (length xs)" "c mod int (length xs) < int (length xs)"
    by simp_all
  then show ?thesis by linarith
qed

lemma round_robin_select_nonempty:
  assumes "srvs \<noteq> []"
  shows "round_robin_select lb srvs =
           Inr (lb\<lparr>round_robin_index := round_robin_index lb + 1\<rparr>,
                Some (srvs ! nat (round_robin_index lb mod int (length srvs))))"
proof -
  let ?k = "nat (round_robin_index lb mod int (length srvs))"
  from assms have "0 < int (length srvs)" by simp
  then have "0 \<le> round_robin_index lb mod int (length srvs)" by simp
  then have "int ?k = round_robin_index lb mod int (length srvs)" by simp
  moreover have "py_getitem srvs (int ?k) = Inr (srvs ! ?k)"
    by (rule py_getitem_in_range) (rule cursor_in_range [OF assms])
  ultimately show ?thesis using assms by (simp add: round_robin_select_def)
qed

text \<open>Apart from the weight it has just been given, a returned server is one of the list.\<close>

lemma latency_weight_restore: "(latency_weight fl s)\<lparr>weight := weight s\<rparr> = s"
  by (simp add: latency_weight_fields)

lemma performance_weight_restore: "(performance_weight fl s)\<lparr>weight := weight s\<rparr> = s"
  by (simp add: performance_weight_fields)

lemma weight_restore_self: "(s::ServerMetrics)\<lparr>weight := weight s\<rparr> = s"
  by simp

lemma healthy_latency_weight: "healthy (latency_weight fl s) = healthy s"
  by (simp add: latency_weight_fields)

lemma healthy_performance_weight: "healthy (performance_weight fl s) = healthy s"
  by (simp add: performance_weight_fields)

text \<open>Writing back the healthy servers after a change \<open>f\<close> of each that keeps the
  health flag amounts to changing the healthy entries of the registry in place.\<close>

lemma write_back_map:
  assumes "\<And>s. healthy (f s) = healthy s"
  shows "write_back reg (map f (filter healthy (map snd reg))) =
           map (\<lambda>(k, s). (k, if healthy s then f s else s)) reg"
  by (induction reg) (auto simp: assms)

text \<open>
  The outcome of \<open>select_server\<close> in full: it never raises; without a healthy server it
  returns \<open>None\<close> and leaves the state alone; otherwise it returns a server that, its
  weight apart, is one of the healthy servers of the registry.
\<close>

lemma select_server_cases:
  "(get_healthy_servers lb = [] \<and> select_server fl lb = Inr (lb, None)) \<or>
   (\<exists>lb' r s. select_server fl lb = Inr (lb', Some r) \<and> s \<in> set (get_healthy_servers lb) \<and>
       r\<lparr>weight := weight s\<rparr> = s)"
proof (cases "get_healthy_servers lb = []")
  case True
  then show ?thesis by (simp add: select_server_def get_healthy_servers_def)
next
  case False
  let ?hs = "filter healthy (map snd (servers lb))"
  from False have ne: "?hs \<noteq> []" by (simp add: get_healthy_servers_def)
  have "\<exists>lb' r s. select_server fl lb = Inr (lb', Some r) \<and> s \<in> set ?hs \<and>
          r\<lparr>weight := weight s\<rparr> = s"
  proof (cases "current_algorithm lb")
    case ROUND_ROBIN
    let ?k = "nat (round_robin_index lb mod int (length ?hs))"
    have "?hs ! ?k \<in> set ?hs" using cursor_in_range [OF ne] by (rule nth_mem)
    moreover have "select_server fl lb =
        Inr (lb\<lparr>round_robin_index := round_robin_index lb + 1\<rparr>, Some (?hs ! ?k))"
      using ne ROUND_ROBIN round_robin_select_nonempty [OF ne, of lb]
      by (simp add: select_server_def Let_def)
    ultimately show ?thesis using weight_restore_self by blast
  next
    case LEAST_CONNECTIONS
    from py_min_in [OF ne, of active_connections] obtain x where
      x: "x \<in> set ?hs" "py_min active_connections ?hs = Inr x" by blast
    then have "select_server fl lb = Inr (lb, Some x)"
      using ne LEAST_CONNECTIONS by (simp add: select_server_def least_connections_select_def Let_def)
    with x(1) show ?thesis using weight_restore_self by blast
  next
    case LATENCY_WEIGHTED
    from latency_weighted_select_in [OF ne, of fl] obtain i where
      i: "i < length ?hs"
      "latency_weighted_select fl ?hs = Inr (map (latency_weight fl) ?hs, Some (latency_weight fl (?hs ! i)))"
      by blast
    from i(1) have "?hs ! i \<in> set ?hs" by (rule nth_mem)
    moreover have "select_server fl lb =
        Inr (lb\<lparr>servers := write_back (servers lb) (map (latency_weight fl) ?hs)\<rparr>,
             Some (latency_weight fl (?hs ! i)))"
      using ne LATENCY_WEIGHTED i(2) by (simp add: select_server_def Let_def)
    ultimately show ?thesis using latency_weight_restore by blast
  next
    case WEIGHTED_ROUND_ROBIN
    from weighted_round_robin_select_nonempty [OF ne, of fl] obtain i where
      i: "i < length ?hs"
      "weighted_round_robin_select fl ?hs =
         Inr (map (performance_weight fl) ?hs, performance_weight fl (?hs ! i))"
      by blast
    from i(1) have "?hs ! i \<in> set ?hs" by (rule nth_mem)
    moreover have "select_server fl lb =
        Inr (lb\<lparr>servers := write_back (servers lb) (map (performance_weight fl) ?hs)\<rparr>,
             Some (performance_weight fl (?hs ! i)))"
      using ne WEIGHTED_ROUND_ROBIN i(2) by (simp add: select_server_def Let_def)
    ultimately show ?thesis using performance_weight_restore by blast
  qed
  then show ?thesis by (simp add: get_healthy_servers_def)
qed

section \<open>Selection and health\<close>

lemma get_healthy_servers_set_algorithm [simp]:
  "get_healthy_servers (set_algorithm lb algorithm) = get_healthy_servers lb"
  by (simp add: get_healthy_servers_def set_algorithm_def)

text \<open>
  C5. Whatever the policy, when no server of the registry is healthy \<open>select_server\<close>
  returns \<open>None\<close> normally (it raises nothing) and leaves the state as it was.
\<close>

theorem select_server_no_healthy_backend:
  assumes "\<forall>s \<in> set (map snd (servers lb)). \<not> healthy s"
  shows "select_server fl (set_algorithm lb algorithm) = Inr (set_algorithm lb algorithm, None)"
proof -
  from assms have "filter healthy (map snd (servers lb)) = []"
    by (simp add: filter_empty_conv)
  then show ?thesis by (simp add: select_server_def set_algorithm_def)
qed

theorem select_server_no_healthy_backend_witness:
  "list_all (\<lambda>s. \<not> healthy s)
     (map snd (servers (test_registry (unhealthy srv1) (unhealthy srv2) (unhealthy srv3)))) \<and>
   select_server double_ops
     (set_algorithm (test_registry (unhealthy srv1) (unhealthy srv2) (unhealthy srv3))
        LEAST_CONNECTIONS) =
     Inr (set_algorithm (test_registry (unhealthy srv1) (unhealthy srv2) (unhealthy srv3))
            LEAST_CONNECTIONS, None)"
proof -
  let ?lb = "test_registry (unhealthy srv1) (unhealthy srv2) (unhealthy srv3)"
  have none: "\<forall>s \<in> set (map snd (servers ?lb)). \<not> healthy s"
    by (simp add: test_registry_def unhealthy_def)
  from select_server_no_healthy_backend [OF none, of double_ops LEAST_CONNECTIONS] none
  show ?thesis unfolding list_all_iff by blast
qed

text \<open>
  C8. Whatever the policy, \<open>select_server\<close> returns normally, and returns a server
  exactly when some server is healthy; a server it returns is healthy and is, its freshly
  written weight apart, one of the healthy servers of the registry; and when exactly one
  server is healthy, a server is returned and it is that one, whatever its metrics.
\<close>

theorem select_server_returns_healthy:
  "(\<exists>lb' res. select_server fl (set_algorithm lb algorithm) = Inr (lb', res) \<and>
      (res = None \<longleftrightarrow> get_healthy_servers lb = [])) \<and>
   (\<forall>lb' r. select_server fl (set_algorithm lb algorithm) = Inr (lb', Some r) \<longrightarrow>
      healthy r \<and> (\<exists>s \<in> set (get_healthy_servers lb). r\<lparr>weight := weight s\<rparr> = s)) \<and>
   (\<forall>s. get_healthy_servers lb = [s] \<longrightarrow>
      (\<exists>lb' r. select_server fl (set_algorithm lb algorithm) = Inr (lb', Some r) \<and>
          r\<lparr>weight := weight s\<rparr> = s))"
proof -
  let ?lb = "set_algorithm lb algorithm"
  have t: "\<exists>lb' res. select_server fl ?lb = Inr (lb', res) \<and>
      (res = None \<longleftrightarrow> get_healthy_servers lb = [])"
    using select_server_cases [of ?lb fl] by auto
  have a: "healthy r \<and> (\<exists>s \<in> set (get_healthy_servers lb). r\<lparr>weight := weight s\<rparr> = s)"
    if sel: "select_server fl ?lb = Inr (lb', Some r)" for lb' r
  proof -
    from select_server_cases [of ?lb fl] sel obtain s where
      s: "s \<in> set (get_healthy_servers lb)" "r\<lparr>weight := weight s\<rparr> = s"
      by auto
    from s(1) have "healthy s" by (simp add: get_healthy_servers_def)
    with s(2) have "healthy r" by (metis ServerMetrics.select_convs(3) ServerMetrics.surjective ServerMetrics.update_convs(10))
    with s show ?thesis by blast
  qed
  have b: "\<exists>lb' r. select_server fl ?lb = Inr (lb', Some r) \<and> r\<lparr>weight := weight s\<rparr> = s"
    if one: "get_healthy_servers lb = [s]" for s
  proof -
    from select_server_cases [of ?lb fl] one obtain lb' r s' where
      "select_server fl ?lb = Inr (lb', Some r)" "s' \<in> set [s]" "r\<lparr>weight := weight s'\<rparr> = s'"
      by auto
    then show ?thesis by auto
  qed
  from t a b show ?thesis by blast
qed

theorem select_server_returns_healthy_witness:
  "get_healthy_servers (test_registry (unhealthy srv1) (unhealthy srv2) (loaded srv3 95 99))
     = [loaded srv3 95 99] \<and>
   (\<exists>lb' r. select_server double_ops
              (set_algorithm (test_registry (unhealthy srv1) (unhealthy srv2) (loaded srv3 95 99))
                 WEIGHTED_ROUND_ROBIN) = Inr (lb', Some r) \<and>
            r\<lparr>weight := weight (loaded srv3 95 99)\<rparr> = loaded srv3 95 99 \<and> healthy r)"
proof -
  let ?lb = "test_registry (unhealthy srv1) (unhealthy srv2) (loaded srv3 95 99)"
  have one: "get_healthy_servers ?lb = [loaded srv3 95 99]"
    by (simp add: get_healthy_servers_def test_registry_def srv_defs)
  from select_server_returns_healthy [of double_ops ?lb WEIGHTED_ROUND_ROBIN] one
  show ?thesis by blast
qed

section \<open>Round-robin selection\<close>

lemma select_server_round_robin:
  assumes "current_algorithm lb = ROUND_ROBIN" and "get_healthy_servers lb \<noteq> []"
  shows "select_server fl lb =
           Inr (lb\<lparr>round_robin_index := round_robin_index lb + 1\<rparr>,
                Some (get_healthy_servers lb !
                        nat (round_robin_index lb mod int (length (get_healthy_servers lb)))))"
proof -
  from assms(2) have ne: "filter healthy (map snd (servers lb)) \<noteq> []"
    by (simp add: get_healthy_servers_def)
  from round_robin_select_nonempty [OF ne, of lb] ne assms(1) show ?thesis
    by (simp add: select_server_def get_healthy_servers_def Let_def)
qed

lemma select_many_round_robin:
  assumes "current_algorithm lb = ROUND_ROBIN" and "get_healthy_servers lb \<noteq> []"
  shows "select_many fl n lb =
           Inr (lb\<lparr>round_robin_index := round_robin_index lb + int n\<rparr>,
                map (\<lambda>k. Some (get_healthy_servers lb !
                       nat ((round_robin_index lb + int k) mod
                            int (length (get_healthy_servers lb)))))
                    [0..<n])"
  using assms
proof (induction n arbitrary: lb)
  case 0
  then show ?case by simp
next
  case (Suc n)
  let ?hs = "get_healthy_servers lb"
  let ?c = "round_robin_index lb"
  let ?lb1 = "lb\<lparr>round_robin_index := ?c + 1\<rparr>"
  have hs1: "get_healthy_servers ?lb1 = ?hs" by (simp add: get_healthy_servers_def)
  have alg1: "current_algorithm ?lb1 = ROUND_ROBIN" using Suc.prems(1) by simp
  have ne1: "get_healthy_servers ?lb1 \<noteq> []" using Suc.prems(2) hs1 by simp
  have step: "select_server fl lb = Inr (?lb1, Some (?hs ! nat (?c mod int (length ?hs))))"
    using Suc.prems by (rule select_server_round_robin)
  have rest: "select_many fl n ?lb1 =
      Inr (?lb1\<lparr>round_robin_index := round_robin_index ?lb1 + int n\<rparr>,
           map (\<lambda>k. Some (?hs ! nat ((round_robin_index ?lb1 + int k) mod int (length ?hs))))
               [0..<n])"
    using Suc.IH [OF alg1 ne1] hs1 by simp
  have idx: "?lb1\<lparr>round_robin_index := round_robin_index ?lb1 + int n\<rparr> =
             lb\<lparr>round_robin_index := ?c + int (Suc n)\<rparr>"
    by (simp add: add.assoc)
  have shift: "(\<lambda>k. Some (?hs ! nat ((round_robin_index ?lb1 + int k) mod int (length ?hs)))) =
               (\<lambda>k. Some (?hs ! nat ((?c + int (Suc k)) mod int (length ?hs))))"
    by (simp add: algebra_simps)
  have "select_many fl (Suc n) lb =
      Inr (?lb1\<lparr>round_robin_index := round_robin_index ?lb1 + int n\<rparr>,
           Some (?hs ! nat (?c mod int (length ?hs))) #
           map (\<lambda>k. Some (?hs ! nat ((round_robin_index ?lb1 + int k) mod int (length ?hs))))
               [0..<n])"
    by (simp only: select_many.simps step rest sum.case prod.case)
  also have "\<dots> =
      Inr (lb\<lparr>round_robin_index := ?c + int (Suc n)\<rparr>,
           Some (?hs ! nat (?c mod int (length ?hs))) #
           map (\<lambda>k. Some (?hs ! nat ((?c + int (Suc k)) mod int (length ?hs)))) [0..<n])"
    by (simp only: idx shift)
  also have "Some (?hs ! nat (?c mod int (length ?hs))) #
           map (\<lambda>k. Some (?hs ! nat ((?c + int (Suc k)) mod int (length ?hs)))) [0..<n] =
           map (\<lambda>k. Some (?hs ! nat ((?c + int k) mod int (length ?hs)))) [0..<Suc n]"
    by (simp add: map_upt_Suc del: upt_Suc)
  finally show ?case .
qed

lemma cursor_position:
  assumes "0 < N"
  shows "nat ((c + int k) mod int N) = (nat (c mod int N) + k) mod N"
proof -
  from assms have r: "0 \<le> c mod int N" by simp
  have "int ((nat (c mod int N) + k) mod N) = (c mod int N + int k) mod int N"
    using r by (simp add: zmod_int)
  also have "\<dots> = (c + int k) mod int N" by (simp add: mod_add_left_eq)
  finally show ?thesis by linarith
qed

lemma one_round:
  assumes "hs \<noteq> []"
  shows "map (\<lambda>k. hs ! nat ((c + int k) mod int (length hs))) [0..<length hs] =
           rotate (nat (c mod int (length hs))) hs"
proof (rule nth_equalityI)
  show "length (map (\<lambda>k. hs ! nat ((c + int k) mod int (length hs))) [0..<length hs]) =
        length (rotate (nat (c mod int (length hs))) hs)" by simp
next
  fix i assume "i < length (map (\<lambda>k. hs ! nat ((c + int k) mod int (length hs))) [0..<length hs])"
  then have i: "i < length hs" by simp
  from assms have pos: "0 < length hs" by simp
  from i show "map (\<lambda>k. hs ! nat ((c + int k) mod int (length hs))) [0..<length hs] ! i =
        rotate (nat (c mod int (length hs))) hs ! i"
    by (simp add: nth_rotate cursor_position [OF pos])
qed

lemma two_rounds:
  assumes "hs \<noteq> []"
  shows "map (\<lambda>k. hs ! nat ((c + int k) mod int (length hs))) [0..<2 * length hs] =
           rotate (nat (c mod int (length hs))) hs @ rotate (nat (c mod int (length hs))) hs"
proof -
  let ?N = "length hs"
  let ?f = "\<lambda>k. hs ! nat ((c + int k) mod int ?N)"
  have "[0..<2 * ?N] = [0..<?N + ?N]" by (simp only: mult_2)
  also have "\<dots> = [0..<?N] @ [?N..<?N + ?N]" by (rule upt_add_eq_append) simp
  also have "[?N..<?N + ?N] = map (\<lambda>k. k + ?N) [0..<?N]" by (simp only: map_add_upt)
  finally have split: "[0..<2 * ?N] = [0..<?N] @ map (\<lambda>k. k + ?N) [0..<?N]" .
  have again: "?f (k + ?N) = ?f k" for k
  proof -
    have "(c + int (k + ?N)) mod int ?N = (c + int k + int ?N) mod int ?N"
      by (simp add: add.assoc)
    also have "\<dots> = (c + int k) mod int ?N" by simp
    finally show ?thesis by simp
  qed
  have "map ?f [0..<2 * ?N] = map ?f [0..<?N] @ map (\<lambda>k. ?f (k + ?N)) [0..<?N]"
    unfolding split by (simp add: comp_def)
  also have "\<dots> = map ?f [0..<?N] @ map ?f [0..<?N]" by (simp only: again)
  finally show ?thesis by (simp only: one_round [OF assms])
qed

lemma count_list_rotate: "count_list (rotate n xs) x = count_list xs x"
proof -
  let ?k = "n mod length xs"
  have "count_list (rotate n xs) x = count_list (drop ?k xs) x + count_list (take ?k xs) x"
    by (simp add: rotate_drop_take)
  also have "\<dots> = count_list (take ?k xs @ drop ?k xs) x"
    by (simp only: count_list_append add.commute)
  also have "\<dots> = count_list xs x"
    by (simp only: append_take_drop_id)
  finally show ?thesis .
qed

lemma count_list_map_Some: "count_list (map Some xs) (Some x) = count_list xs x"
  by (induction xs) auto

text \<open>
  C4. With the round-robin policy and a non-empty healthy list of length N that does not
  change, from any cursor value: every call advances the cursor by exactly one (after n
  calls it has advanced by n), a call returns the healthy server at position cursor mod N,
  and 2N calls in a row return the healthy list in registry order, started at position
  cursor mod N and taken cyclically, twice over, so that every server is returned exactly
  twice as often as it occurs in the healthy list.
\<close>

theorem round_robin_visits_each_backend_twice:
  assumes "current_algorithm lb = ROUND_ROBIN" and "get_healthy_servers lb \<noteq> []"
  shows "select_server fl lb =
           Inr (lb\<lparr>round_robin_index := round_robin_index lb + 1\<rparr>,
                Some (get_healthy_servers lb !
                        nat (round_robin_index lb mod int (length (get_healthy_servers lb))))) \<and>
         (\<forall>n. \<exists>sels. select_many fl n lb =
                  Inr (lb\<lparr>round_robin_index := round_robin_index lb + int n\<rparr>, sels) \<and>
                length sels = n) \<and>
         (\<exists>sels. select_many fl (2 * length (get_healthy_servers lb)) lb =
                  Inr (lb\<lparr>round_robin_index :=
                            round_robin_index lb + 2 * int (length (get_healthy_servers lb))\<rparr>,
                       sels) \<and>
                sels = map Some
                  (rotate (nat (round_robin_index lb mod int (length (get_healthy_servers lb))))
                     (get_healthy_servers lb) @
                   rotate (nat (round_robin_index lb mod int (length (get_healthy_servers lb))))
                     (get_healthy_servers lb)) \<and>
                (\<forall>s. count_list sels (Some s) = 2 * count_list (get_healthy_servers lb) s))"
proof -
  let ?hs = "get_healthy_servers lb"
  let ?c = "round_robin_index lb"
  let ?r = "nat (?c mod int (length ?hs))"
  have one: "select_server fl lb =
      Inr (lb\<lparr>round_robin_index := ?c + 1\<rparr>, Some (?hs ! ?r))"
    using assms by (rule select_server_round_robin)
  have many: "\<exists>sels. select_many fl n lb = Inr (lb\<lparr>round_robin_index := ?c + int n\<rparr>, sels) \<and>
      length sels = n" for n
    using select_many_round_robin [OF assms, of fl n] by simp
  have "select_many fl (2 * length ?hs) lb =
      Inr (lb\<lparr>round_robin_index := ?c + int (2 * length ?hs)\<rparr>,
           map (\<lambda>k. Some (?hs ! nat ((?c + int k) mod int (length ?hs)))) [0..<2 * length ?hs])"
    by (rule select_many_round_robin [OF assms])
  also have "map (\<lambda>k. Some (?hs ! nat ((?c + int k) mod int (length ?hs)))) [0..<2 * length ?hs] =
      map Some (map (\<lambda>k. ?hs ! nat ((?c + int k) mod int (length ?hs))) [0..<2 * length ?hs])"
    by (simp add: comp_def)
  also have "\<dots> = map Some (rotate ?r ?hs @ rotate ?r ?hs)"
    by (simp only: two_rounds [OF assms(2)])
  finally have twice: "select_many fl (2 * length ?hs) lb =
      Inr (lb\<lparr>round_robin_index := ?c + 2 * int (length ?hs)\<rparr>,
           map Some (rotate ?r ?hs @ rotate ?r ?hs))"
    by simp
  have count: "count_list (map Some (rotate ?r ?hs @ rotate ?r ?hs)) (Some s) =
      2 * count_list ?hs s" for s
    by (simp only: count_list_map_Some count_list_append count_list_rotate mult_2)
  from one many twice count show ?thesis by blast
qed

theorem round_robin_visits_each_backend_twice_witness:
  "current_algorithm (test_registry srv1 srv2 srv3) = ROUND_ROBIN \<and>
   get_healthy_servers (test_registry srv1 srv2 srv3) \<noteq> [] \<and>
   select_many double_ops 6 (test_registry srv1 srv2 srv3) =
     Inr ((test_registry srv1 srv2 srv3)\<lparr>round_robin_index := 6\<rparr>,
          [Some srv1, Some srv2, Some srv3, Some srv1, Some srv2, Some srv3])"
proof -
  let ?lb = "test_registry srv1 srv2 srv3"
  have alg: "current_algorithm ?lb = ROUND_ROBIN" by (simp add: test_registry_def)
  have hs: "get_healthy_servers ?lb = [srv1, srv2, srv3]"
    by (simp add: get_healthy_servers_def test_registry_def srv_defs)
  then have ne: "get_healthy_servers ?lb \<noteq> []" by simp
  have c: "round_robin_index ?lb = 0" by (simp add: test_registry_def)
  from round_robin_visits_each_backend_twice [OF alg ne] obtain sels where
    "select_many double_ops (2 * length (get_healthy_servers ?lb)) ?lb =
       Inr (?lb\<lparr>round_robin_index :=
                  round_robin_index ?lb + 2 * int (length (get_healthy_servers ?lb))\<rparr>, sels)"
    "sels = map Some
       (rotate (nat (round_robin_index ?lb mod int (length (get_healthy_servers ?lb))))
          (get_healthy_servers ?lb) @
        rotate (nat (round_robin_index ?lb mod int (length (get_healthy_servers ?lb))))
          (get_healthy_servers ?lb))"
    by blast
  then have "select_many double_ops 6 ?lb =
     Inr (?lb\<lparr>round_robin_index := 6\<rparr>,
          [Some srv1, Some srv2, Some srv3, Some srv1, Some srv2, Some srv3])"
    unfolding hs c by simp
  with alg ne show ?thesis by blast
qed

section \<open>Health probes\<close>

lemma check_server_health_request_failed:
  "check_server_health server RequestFailed = server\<lparr>healthy := False\<rparr>"
  by (simp add: check_server_health_def health_try_body_def)

lemma check_server_health_bad_status:
  assumes "status_code resp \<noteq> 200"
  shows "check_server_health server (Responded resp latency_ms now) = server\<lparr>healthy := False\<rparr>"
  using assms by (simp add: check_server_health_def health_try_body_def)

lemma check_server_health_bad_body:
  assumes "status_code resp = 200" and "\<not> body_parses (json_body resp)"
  shows "check_server_health server (Responded resp latency_ms now) =
           server\<lparr>healthy := False, last_latency_ms := latency_ms, last_health_check := now\<rparr>"
  using assms
  by (auto simp: check_server_health_def health_try_body_def body_parses_def Let_def
      split: option.splits health_json.splits metrics_json.splits)

text \<open>
  C3 (as amended). On every probe failure the health check sets \<open>healthy\<close> to false and
  leaves \<open>cpu_percent\<close> and \<open>memory_percent\<close> as they were. When the request itself fails
  or the status is not 200, nothing else changes either. When the status is 200 and the body
  cannot be parsed, \<open>last_latency_ms\<close> and \<open>last_health_check\<close> hold the values
  measured by this probe: they are assigned before the body is read.
\<close>

theorem check_server_health_on_failure:
  assumes "probe_failure p"
  shows "healthy (check_server_health server p) = False \<and>
         cpu_percent (check_server_health server p) = cpu_percent server \<and>
         memory_percent (check_server_health server p) = memory_percent server \<and>
         check_server_health server p =
           (case p of
              RequestFailed \<Rightarrow> server\<lparr>healthy := False\<rparr>
            | Responded resp latency_ms now \<Rightarrow>
                if status_code resp = 200
                then server\<lparr>healthy := False, last_latency_ms := latency_ms,
                             last_health_check := now\<rparr>
                else server\<lparr>healthy := False\<rparr>)"
proof (cases p)
  case RequestFailed
  then show ?thesis by (simp add: check_server_health_request_failed)
next
  case (Responded resp latency_ms now)
  show ?thesis
  proof (cases "status_code resp = 200")
    case True
    with assms Responded have "\<not> body_parses (json_body resp)"
      by (simp add: probe_failure_def)
    with True Responded show ?thesis by (simp add: check_server_health_bad_body)
  next
    case False
    with Responded show ?thesis by (simp add: check_server_health_bad_status)
  qed
qed

theorem check_server_health_on_failure_witness:
  "probe_failure (Responded \<lparr>status_code = 503, json_body = None\<rparr> 7 1000) \<and>
   check_server_health (with_latency (loaded srv1 40 30) 10)
       (Responded \<lparr>status_code = 503, json_body = None\<rparr> 7 1000) =
     (with_latency (loaded srv1 40 30) 10)\<lparr>healthy := False\<rparr>"
proof -
  have f: "probe_failure (Responded \<lparr>status_code = 503, json_body = None\<rparr> 7 1000)"
    by (simp add: probe_failure_def)
  from check_server_health_on_failure [OF f, of "with_latency (loaded srv1 40 30) 10"] f
  show ?thesis by simp
qed

text \<open>
  C3 as stated fails: a status-200 response whose body is not JSON is a probe failure, yet
  the latency recorded before (10 ms) is replaced by the one just measured (99 ms).
\<close>

theorem check_server_health_overwrites_latency_counterexample:
  "probe_failure (Responded \<lparr>status_code = 200, json_body = None\<rparr> 99 1000) \<and>
   check_server_health (with_latency srv1 10)
       (Responded \<lparr>status_code = 200, json_body = None\<rparr> 99 1000) =
     (with_latency srv1 10)\<lparr>healthy := False, last_latency_ms := 99, last_health_check := 1000\<rparr> \<and>
   last_latency_ms (check_server_health (with_latency srv1 10)
       (Responded \<lparr>status_code = 200, json_body = None\<rparr> 99 1000))
     \<noteq> last_latency_ms (with_latency srv1 10)"
  by (simp add: probe_failure_def body_parses_def check_server_health_def health_try_body_def
      srv_defs)

section \<open>Recording a request\<close>

lemma keys_map_entry: "map fst (AList.map_entry k f xs) = map fst xs"
  by (induction xs) auto

lemma map_of_map_entry_same:
  "map_of (AList.map_entry k f xs) k = map_option f (map_of xs k)"
  by (simp add: map_of_map_entry split: option.splits)

lemma map_of_map_entry_other:
  "k' \<noteq> k \<Longrightarrow> map_of (AList.map_entry k f xs) k' = map_of xs k'"
  by (simp add: map_of_map_entry)

lemma record_request_known:
  assumes "sid \<in> set (map fst (servers lb))"
  shows "record_request lb sid latency_ms =
     lb\<lparr>servers :=
           AList.map_entry sid (\<lambda>s. s\<lparr>total_requests := total_requests s + 1\<rparr>)
             (AList.map_entry sid (\<lambda>s. s\<lparr>last_latency_ms := latency_ms\<rparr>) (servers lb)),
         request_counts :=
           AList.update sid (dict_get (request_counts lb) sid 0 + 1) (request_counts lb)\<rparr>"
  using assms by (simp add: record_request_def Let_def)

text \<open>
  C7. For every registry state: recording a request for an identifier of the registry
  keeps the identifiers and their order, replaces the descriptor under that identifier by
  the same descriptor with \<open>last_latency_ms\<close> set to the given latency and
  \<open>total_requests\<close> increased by one, increases the request count of that identifier by
  one (a missing count reads as 0), and leaves every other descriptor, every other count,
  the policy, the cursor and the probe interval as they were; for an identifier that is not
  in the registry the state is returned unchanged.
\<close>

theorem record_request_frame:
  "(sid \<in> set (map fst (servers lb)) \<longrightarrow>
      map fst (servers (record_request lb sid latency_ms)) = map fst (servers lb) \<and>
      map_of (servers (record_request lb sid latency_ms)) sid =
        map_option
          (\<lambda>s. s\<lparr>last_latency_ms := latency_ms, total_requests := total_requests s + 1\<rparr>)
          (map_of (servers lb) sid) \<and>
      (\<forall>k. k \<noteq> sid \<longrightarrow>
         map_of (servers (record_request lb sid latency_ms)) k = map_of (servers lb) k) \<and>
      dict_get (request_counts (record_request lb sid latency_ms)) sid 0 =
        dict_get (request_counts lb) sid 0 + 1 \<and>
      (\<forall>k. k \<noteq> sid \<longrightarrow>
         map_of (request_counts (record_request lb sid latency_ms)) k =
           map_of (request_counts lb) k) \<and>
      current_algorithm (record_request lb sid latency_ms) = current_algorithm lb \<and>
      round_robin_index (record_request lb sid latency_ms) = round_robin_index lb \<and>
      health_check_interval (record_request lb sid latency_ms) = health_check_interval lb) \<and>
   (sid \<notin> set (map fst (servers lb)) \<longrightarrow> record_request lb sid latency_ms = lb)"
proof (cases "sid \<in> set (map fst (servers lb))")
  case False
  then show ?thesis by (simp add: record_request_def)
next
  case True
  note eq = record_request_known [OF True, of latency_ms]
  have keys: "map fst (servers (record_request lb sid latency_ms)) = map fst (servers lb)"
    by (simp add: eq keys_map_entry)
  have same: "map_of (servers (record_request lb sid latency_ms)) sid =
      map_option
        (\<lambda>s. s\<lparr>last_latency_ms := latency_ms, total_requests := total_requests s + 1\<rparr>)
        (map_of (servers lb) sid)"
    by (simp add: eq map_of_map_entry_same option.map_comp comp_def)
  have other: "\<forall>k. k \<noteq> sid \<longrightarrow>
      map_of (servers (record_request lb sid latency_ms)) k = map_of (servers lb) k"
    by (simp add: eq map_of_map_entry_other)
  have count: "dict_get (request_counts (record_request lb sid latency_ms)) sid 0 =
      dict_get (request_counts lb) sid 0 + 1"
    by (simp add: eq dict_get_def AList.update_conv')
  have counts: "\<forall>k. k \<noteq> sid \<longrightarrow>
      map_of (request_counts (record_request lb sid latency_ms)) k =
        map_of (request_counts lb) k"
    by (simp add: eq AList.update_conv')
  have rest: "current_algorithm (record_request lb sid latency_ms) = current_algorithm lb"
    "round_robin_index (record_request lb sid latency_ms) = round_robin_index lb"
    "health_check_interval (record_request lb sid latency_ms) = health_check_interval lb"
    by (simp_all add: eq)
  from True keys same other count counts rest show ?thesis by blast
qed

theorem record_request_frame_witness:
  "''127.0.0.1:5001'' \<in> set (map fst (servers (test_registry srv1 srv2 srv3))) \<and>
   ''10.9.9.9:80'' \<notin> set (map fst (servers (test_registry srv1 srv2 srv3))) \<and>
   ''127.0.0.1:5002'' \<noteq> ''127.0.0.1:5001'' \<and>
   map_of (servers (record_request (test_registry srv1 srv2 srv3) ''127.0.0.1:5001'' (2469 / 20)))
       ''127.0.0.1:5001'' =
     Some (srv1\<lparr>last_latency_ms := 2469 / 20, total_requests := 1\<rparr>) \<and>
   map_of (servers (record_request (test_registry srv1 srv2 srv3) ''127.0.0.1:5001'' (2469 / 20)))
       ''127.0.0.1:5002'' = Some srv2 \<and>
   dict_get (request_counts
       (record_request (test_registry srv1 srv2 srv3) ''127.0.0.1:5001'' (2469 / 20)))
       ''127.0.0.1:5001'' 0 = 1 \<and>
   record_request (test_registry srv1 srv2 srv3) ''10.9.9.9:80'' 5 = test_registry srv1 srv2 srv3"
proof -
  let ?lb = "test_registry srv1 srv2 srv3"
  have known: "''127.0.0.1:5001'' \<in> set (map fst (servers ?lb))"
    by (simp add: test_registry_def)
  have unknown: "''10.9.9.9:80'' \<notin> set (map fst (servers ?lb))"
    by (simp add: test_registry_def)
  have ne: "''127.0.0.1:5002'' \<noteq> ''127.0.0.1:5001''" by simp
  have before: "map_of (servers ?lb) ''127.0.0.1:5001'' = Some srv1"
    "map_of (servers ?lb) ''127.0.0.1:5002'' = Some srv2"
    "dict_get (request_counts ?lb) ''127.0.0.1:5001'' 0 = 0"
    "total_requests srv1 = 0"
    by (simp_all add: test_registry_def dict_get_def srv_defs)
  from record_request_frame [of "''127.0.0.1:5001''" ?lb "2469 / 20"] known ne before
  have "map_of (servers (record_request ?lb ''127.0.0.1:5001'' (2469 / 20))) ''127.0.0.1:5001'' =
       Some (srv1\<lparr>last_latency_ms := 2469 / 20, total_requests := 1\<rparr>)"
    "map_of (servers (record_request ?lb ''127.0.0.1:5001'' (2469 / 20))) ''127.0.0.1:5002'' =
       Some srv2"
    "dict_get (request_counts (record_request ?lb ''127.0.0.1:5001'' (2469 / 20)))
       ''127.0.0.1:5001'' 0 = 1"
    by simp_all
  moreover from record_request_frame [of "''10.9.9.9:80''" ?lb 5] unknown
  have "record_request ?lb ''10.9.9.9:80'' 5 = ?lb" by blast
  ultimately show ?thesis using known unknown ne by blast
qed

section \<open>Flow rules for a new client flow\<close>

lemma install_load_balance_flow_rules:
  "install_load_balance_flow app inport client_ip server =
     [OFPFlowMod None 10
        \<lparr>in_port = Some inport, eth_type = Some ETH_TYPE_IP,
         ipv4_src = Some client_ip, ipv4_dst = Some (virtual_ip app)\<rparr>
        [OFPInstructionActions OFPIT_APPLY_ACTIONS
           [OFPActionSetField_ipv4_dst (ip server), OFPActionOutput 2 OFPCML_MAX]],
      OFPFlowMod None 10
        \<lparr>in_port = Some 2, eth_type = Some ETH_TYPE_IP,
         ipv4_src = Some (ip server), ipv4_dst = Some client_ip\<rparr>
        [OFPInstructionActions OFPIT_APPLY_ACTIONS
           [OFPActionSetField_ipv4_src (virtual_ip app), OFPActionOutput inport OFPCML_MAX]]]"
  by (simp add: install_load_balance_flow_def add_flow_def Let_def)

lemma switch_features_handler_rule:
  "switch_features_handler =
     [OFPFlowMod None 0 OFPMatch_any
        [OFPInstructionActions OFPIT_APPLY_ACTIONS
           [OFPActionOutput OFPP_CONTROLLER OFPCML_NO_BUFFER]]]"
  by (simp add: switch_features_handler_def add_flow_def)

lemma packet_in_handler_selected:
  assumes "load_balancer app = Some lb"
    and "ethernets (msg_data msg) = ETH_TYPE_IP # others"
    and "ipv4 (msg_data msg) = Some iph"
    and "dst iph = virtual_ip app"
    and "select_server fl lb = Inr (lb', Some server)"
  shows "packet_in_handler fl app msg =
     Inr (app\<lparr>load_balancer := Some lb'\<rparr>,
          install_load_balance_flow app (msg_in_port msg) (src iph) server @
          [OFPPacketOut (msg_buffer_id msg) (msg_in_port msg)
             [OFPActionOutput OFPP_FLOOD OFPCML_MAX] (msg_data msg)])"
proof -
  have eth: "py_getitem (ethernets (msg_data msg)) 0 = Inr ETH_TYPE_IP"
    using assms(2) by (simp add: py_getitem_def)
  have lldp: "ETH_TYPE_IP \<noteq> ETH_TYPE_LLDP" by (simp add: ETH_TYPE_IP_def ETH_TYPE_LLDP_def)
  show ?thesis
    using assms(1,3,4,5) lldp by (simp add: packet_in_handler_def eth Let_def)
qed

text \<open>
  C6. When a packet-in carries an IPv4 packet to the virtual address and a backend is
  selected, the handler sends exactly two flow rules, both of priority 10, above the
  priority 0 of the rule installed when the switch connects, followed by the flood of the
  packet: the forward rule matches the ingress port, IPv4, the client's source address and
  the virtual destination address, and rewrites the destination to the backend's address
  before output on port 2; the reverse rule matches port 2, IPv4, the backend's source
  address and the client's destination address, and rewrites the source to the virtual
  address before output on the ingress port.
\<close>

theorem packet_in_installs_forward_and_reverse_rule:
  assumes "load_balancer app = Some lb"
    and "ethernets (msg_data msg) = ETH_TYPE_IP # others"
    and "ipv4 (msg_data msg) = Some iph"
    and "dst iph = virtual_ip app"
    and "select_server fl lb = Inr (lb', Some server)"
  shows "\<exists>msgs. packet_in_handler fl app msg = Inr (app\<lparr>load_balancer := Some lb'\<rparr>, msgs) \<and>
           filter is_flow_mod msgs =
             [OFPFlowMod None 10
                \<lparr>in_port = Some (msg_in_port msg), eth_type = Some ETH_TYPE_IP,
                 ipv4_src = Some (src iph), ipv4_dst = Some (virtual_ip app)\<rparr>
                [OFPInstructionActions OFPIT_APPLY_ACTIONS
                   [OFPActionSetField_ipv4_dst (ip server), OFPActionOutput 2 OFPCML_MAX]],
              OFPFlowMod None 10
                \<lparr>in_port = Some 2, eth_type = Some ETH_TYPE_IP,
                 ipv4_src = Some (ip server), ipv4_dst = Some (src iph)\<rparr>
                [OFPInstructionActions OFPIT_APPLY_ACTIONS
                   [OFPActionSetField_ipv4_src (virtual_ip app),
                    OFPActionOutput (msg_in_port msg) OFPCML_MAX]]] \<and>
           length (filter is_flow_mod msgs) = 2 \<and>
           list_all (\<lambda>m. fm_priority m = 10) (filter is_flow_mod msgs) \<and>
           list_all (\<lambda>d. list_all (\<lambda>m. fm_priority d < fm_priority m) (filter is_flow_mod msgs))
             switch_features_handler \<and>
           map fm_priority switch_features_handler = [0]"
proof -
  let ?out = "OFPPacketOut (msg_buffer_id msg) (msg_in_port msg)
                [OFPActionOutput OFPP_FLOOD OFPCML_MAX] (msg_data msg)"
  let ?msgs = "install_load_balance_flow app (msg_in_port msg) (src iph) server @ [?out]"
  have h: "packet_in_handler fl app msg = Inr (app\<lparr>load_balancer := Some lb'\<rparr>, ?msgs)"
    using assms by (rule packet_in_handler_selected)
  define msgs where "msgs = ?msgs"
  have h': "packet_in_handler fl app msg = Inr (app\<lparr>load_balancer := Some lb'\<rparr>, msgs)"
    using h by (simp only: msgs_def)
  have f: "filter is_flow_mod msgs =
      [OFPFlowMod None 10
         \<lparr>in_port = Some (msg_in_port msg), eth_type = Some ETH_TYPE_IP,
          ipv4_src = Some (src iph), ipv4_dst = Some (virtual_ip app)\<rparr>
         [OFPInstructionActions OFPIT_APPLY_ACTIONS
            [OFPActionSetField_ipv4_dst (ip server), OFPActionOutput 2 OFPCML_MAX]],
       OFPFlowMod None 10
         \<lparr>in_port = Some 2, eth_type = Some ETH_TYPE_IP,
          ipv4_src = Some (ip server), ipv4_dst = Some (src iph)\<rparr>
         [OFPInstructionActions OFPIT_APPLY_ACTIONS
            [OFPActionSetField_ipv4_src (virtual_ip app),
             OFPActionOutput (msg_in_port msg) OFPCML_MAX]]]"
    by (simp add: msgs_def install_load_balance_flow_rules is_flow_mod_def)
  show ?thesis
    by (intro exI [of _ msgs]) (simp add: h' f switch_features_handler_rule)
qed

theorem packet_in_installs_forward_and_reverse_rule_witness:
  "load_balancer test_app = Some (test_registry srv1 srv2 srv3) \<and>
   ethernets (msg_data test_packet_in) = ETH_TYPE_IP # [] \<and>
   ipv4 (msg_data test_packet_in) = Some \<lparr>src = ''10.0.0.1'', dst = ''10.0.0.100''\<rparr> \<and>
   dst \<lparr>src = ''10.0.0.1'', dst = ''10.0.0.100''\<rparr> = virtual_ip test_app \<and>
   select_server double_ops (test_registry srv1 srv2 srv3) =
     Inr ((test_registry srv1 srv2 srv3)\<lparr>round_robin_index := 1\<rparr>, Some srv1) \<and>
   (\<exists>msgs. packet_in_handler double_ops test_app test_packet_in =
        Inr (test_app\<lparr>load_balancer :=
               Some ((test_registry srv1 srv2 srv3)\<lparr>round_robin_index := 1\<rparr>)\<rparr>, msgs) \<and>
      filter is_flow_mod msgs =
        [OFPFlowMod None 10
           \<lparr>in_port = Some 1, eth_type = Some ETH_TYPE_IP,
            ipv4_src = Some ''10.0.0.1'', ipv4_dst = Some ''10.0.0.100''\<rparr>
           [OFPInstructionActions OFPIT_APPLY_ACTIONS
              [OFPActionSetField_ipv4_dst ''127.0.0.1'', OFPActionOutput 2 OFPCML_MAX]],
         OFPFlowMod None 10
           \<lparr>in_port = Some 2, eth_type = Some ETH_TYPE_IP,
            ipv4_src = Some ''127.0.0.1'', ipv4_dst = Some ''10.0.0.1''\<rparr>
           [OFPInstructionActions OFPIT_APPLY_ACTIONS
              [OFPActionSetField_ipv4_src ''10.0.0.100'', OFPActionOutput 1 OFPCML_MAX]]])"
proof -
  let ?lb = "test_registry srv1 srv2 srv3"
  let ?iph = "\<lparr>src = ''10.0.0.1'', dst = ''10.0.0.100''\<rparr>"
  have a1: "load_balancer test_app = Some ?lb" by (simp add: test_app_def)
  have a2: "ethernets (msg_data test_packet_in) = ETH_TYPE_IP # []"
    by (simp add: test_packet_in_def)
  have a3: "ipv4 (msg_data test_packet_in) = Some ?iph" by (simp add: test_packet_in_def)
  have a4: "dst ?iph = virtual_ip test_app" by (simp add: test_app_def)
  have a5: "select_server double_ops ?lb = Inr (?lb\<lparr>round_robin_index := 1\<rparr>, Some srv1)"
    by (simp add: select_server_def round_robin_select_def py_getitem_def test_registry_def
        srv_defs Let_def)
  have v: "virtual_ip test_app = ''10.0.0.100''" "msg_in_port test_packet_in = 1"
    "ip srv1 = ''127.0.0.1''" "src ?iph = ''10.0.0.1''"
    by (simp_all add: test_app_def test_packet_in_def srv_defs)
  from packet_in_installs_forward_and_reverse_rule [OF a1 a2 a3 a4 a5]
  obtain msgs where
    "packet_in_handler double_ops test_app test_packet_in =
       Inr (test_app\<lparr>load_balancer := Some (?lb\<lparr>round_robin_index := 1\<rparr>)\<rparr>, msgs)"
    "filter is_flow_mod msgs =
        [OFPFlowMod None 10
           \<lparr>in_port = Some (msg_in_port test_packet_in), eth_type = Some ETH_TYPE_IP,
            ipv4_src = Some (src ?iph), ipv4_dst = Some (virtual_ip test_app)\<rparr>
           [OFPInstructionActions OFPIT_APPLY_ACTIONS
              [OFPActionSetField_ipv4_dst (ip srv1), OFPActionOutput 2 OFPCML_MAX]],
         OFPFlowMod None 10
           \<lparr>in_port = Some 2, eth_type = Some ETH_TYPE_IP,
            ipv4_src = Some (ip srv1), ipv4_dst = Some (src ?iph)\<rparr>
           [OFPInstructionActions OFPIT_APPLY_ACTIONS
              [OFPActionSetField_ipv4_src (virtual_ip test_app),
               OFPActionOutput (msg_in_port test_packet_in) OFPCML_MAX]]]"
    by blast
  then show ?thesis using a1 a2 a3 a4 a5 unfolding v by blast
qed

section \<open>Parsing the backend list\<close>

lemma parse_servers_loop_step:
  "parse_servers_loop py_int (server_str # rest) (srvs, logged) =
     (case entry_pair py_int server_str of
        Some pr \<Rightarrow> parse_servers_loop py_int rest (srvs @ [pr], logged)
      | None \<Rightarrow> parse_servers_loop py_int rest (srvs, logged @ [server_str]))"
  by (simp add: entry_pair_def split: list.splits option.splits)

lemma parse_servers_loop_eq:
  "parse_servers_loop py_int entries (srvs, logged) =
     (srvs @ List.map_filter (entry_pair py_int) entries,
      logged @ filter (\<lambda>e. \<not> well_formed_entry py_int e) entries)"
proof (induction entries arbitrary: srvs logged)
  case Nil
  then show ?case by (simp add: List.map_filter_simps)
next
  case (Cons e entries)
  show ?case
  proof (cases "entry_pair py_int e")
    case None
    then show ?thesis
      by (simp only: parse_servers_loop_step Cons.IH)
         (simp add: List.map_filter_simps well_formed_entry_def)
  next
    case (Some pr)
    then show ?thesis
      by (simp only: parse_servers_loop_step Cons.IH)
         (simp add: List.map_filter_simps well_formed_entry_def)
  qed
qed

lemma length_map_filter: "length (List.map_filter f xs) = length (filter (\<lambda>x. f x \<noteq> None) xs)"
  by (induction xs) (auto simp: List.map_filter_simps split: option.splits)

text \<open>
  C9. For a non-empty configuration string, whatever the built-in \<open>int\<close> accepts:
  the parser returns, in the order of the comma-separated entries, the pair of every
  well-formed entry (after stripping: exactly one colon, and a port that \<open>int\<close>
  accepts), one pair per such entry, and reports every other entry to the log without
  stopping. Whenever the configured virtual port and the configured port of the management
  API are readable, the application is constructed: it holds a registry built from the
  parsed list when that list is not empty, and no registry when it is empty.
\<close>

theorem parse_servers_drops_malformed_entries:
  "(servers_env \<noteq> [] \<longrightarrow>
      parse_servers_logged py_int servers_env =
        (List.map_filter (entry_pair py_int) (split_on CHR '','' servers_env),
         filter (\<lambda>e. \<not> well_formed_entry py_int e) (split_on CHR '','' servers_env)) \<and>
      parse_servers py_int servers_env =
        map (the \<circ> entry_pair py_int)
          (filter (well_formed_entry py_int) (split_on CHR '','' servers_env)) \<and>
      length (parse_servers py_int servers_env) =
        length (filter (well_formed_entry py_int) (split_on CHR '','' servers_env))) \<and>
   (\<forall>vport. (case env_port of None \<Rightarrow> Some 80 | Some s \<Rightarrow> py_int s) = Some vport \<and>
        (case env_api of None \<Rightarrow> Some 8080 | Some s \<Rightarrow> py_int s) \<noteq> None \<longrightarrow>
      (\<exists>app. SDNLoadBalancer_init py_int env_ip env_port env_servers env_api = Inr app \<and>
         virtual_port app = vport \<and>
         load_balancer app =
           (if parse_servers py_int (case env_servers of None \<Rightarrow> [] | Some s \<Rightarrow> s) = []
            then None
            else Some (LoadBalancer_init
                   (parse_servers py_int (case env_servers of None \<Rightarrow> [] | Some s \<Rightarrow> s))))))"
proof -
  let ?entries = "split_on CHR '','' servers_env"
  have wf: "well_formed_entry py_int = (\<lambda>e. entry_pair py_int e \<noteq> None)"
    by (simp add: well_formed_entry_def fun_eq_iff)
  have a: "parse_servers_logged py_int servers_env =
        (List.map_filter (entry_pair py_int) ?entries,
         filter (\<lambda>e. \<not> well_formed_entry py_int e) ?entries)"
    if "servers_env \<noteq> []"
    using that by (simp add: parse_servers_logged_def parse_servers_loop_eq)
  have b: "parse_servers py_int servers_env =
        map (the \<circ> entry_pair py_int) (filter (well_formed_entry py_int) ?entries)"
    if "servers_env \<noteq> []"
    using a [OF that] by (simp add: parse_servers_def List.map_filter_def wf)
  have c: "length (parse_servers py_int servers_env) =
        length (filter (well_formed_entry py_int) ?entries)"
    if "servers_env \<noteq> []"
    using b [OF that] by simp
  have d: "\<exists>app. SDNLoadBalancer_init py_int env_ip env_port env_servers env_api = Inr app \<and>
         virtual_port app = vport \<and>
         load_balancer app =
           (if parse_servers py_int (case env_servers of None \<Rightarrow> [] | Some s \<Rightarrow> s) = []
            then None
            else Some (LoadBalancer_init
                   (parse_servers py_int (case env_servers of None \<Rightarrow> [] | Some s \<Rightarrow> s))))"
    if "(case env_port of None \<Rightarrow> Some 80 | Some s \<Rightarrow> py_int s) = Some vport"
      and "(case env_api of None \<Rightarrow> Some 8080 | Some s \<Rightarrow> py_int s) \<noteq> None" for vport
    using that by (auto simp add: SDNLoadBalancer_init_def Let_def)
  from a b c d show ?thesis by blast
qed

theorem parse_servers_drops_malformed_entries_witness:
  "CHR 0xA0 # ''10.0.0.1:5001, bad,10.0.0.2:x, 10.0.0.3:5003 '' \<noteq> [] \<and>
   parse_servers_logged decimal_int (CHR 0xA0 # ''10.0.0.1:5001, bad,10.0.0.2:x, 10.0.0.3:5003 '') =
     ([(''10.0.0.1'', 5001), (''10.0.0.3'', 5003)], ['' bad'', ''10.0.0.2:x'']) \<and>
   SDNLoadBalancer_init decimal_int None None (Some ''10.0.0.1;5001'') None =
     Inr \<lparr>load_balancer = None, virtual_ip = ''10.0.0.100'', virtual_port = 80\<rparr> \<and>
   load_balancer \<lparr>load_balancer = None, virtual_ip = ''10.0.0.100'', virtual_port = 80\<rparr> = None"
proof -
  let ?env = "CHR 0xA0 # ''10.0.0.1:5001, bad,10.0.0.2:x, 10.0.0.3:5003 ''"
  have ne: "?env \<noteq> []" by simp
  have entries: "split_on CHR '','' ?env =
      [CHR 0xA0 # ''10.0.0.1:5001'', '' bad'', ''10.0.0.2:x'', '' 10.0.0.3:5003 '']"
    by simp
  have pairs: "entry_pair decimal_int (CHR 0xA0 # ''10.0.0.1:5001'') = Some (''10.0.0.1'', 5001)"
    "entry_pair decimal_int '' bad'' = None"
    "entry_pair decimal_int ''10.0.0.2:x'' = None"
    "entry_pair decimal_int '' 10.0.0.3:5003 '' = Some (''10.0.0.3'', 5003)"
    by (simp_all add: entry_pair_def py_strip_def py_isspace_def decimal_int_def is_digit_def)
  from parse_servers_drops_malformed_entries [of ?env decimal_int] ne
  have "parse_servers_logged decimal_int ?env =
        (List.map_filter (entry_pair decimal_int) (split_on CHR '','' ?env),
         filter (\<lambda>e. \<not> well_formed_entry decimal_int e) (split_on CHR '','' ?env))"
    by blast
  then have parsed: "parse_servers_logged decimal_int ?env =
     ([(''10.0.0.1'', 5001), (''10.0.0.3'', 5003)], ['' bad'', ''10.0.0.2:x''])"
    unfolding entries by (simp add: List.map_filter_simps pairs well_formed_entry_def)
  have init: "SDNLoadBalancer_init decimal_int None None (Some ''10.0.0.1;5001'') None =
     Inr \<lparr>load_balancer = None, virtual_ip = ''10.0.0.100'', virtual_port = 80\<rparr>"
    by (simp add: SDNLoadBalancer_init_def parse_servers_def parse_servers_logged_def
        py_strip_def py_isspace_def)
  from ne parsed init show ?thesis by simp
qed

section \<open>Server identifiers\<close>

declare str_nat.simps [simp del]

lemma of_char_digit_char:
  assumes "d < 10"
  shows "(of_char (digit_char d) :: nat) = 48 + d"
  using assms by (simp add: digit_char_def)

lemma is_digit_digit_char: "d < 10 \<Longrightarrow> is_digit (digit_char d)"
  by (simp add: is_digit_def of_char_digit_char)

lemma str_nat_digits: "list_all is_digit (str_nat n)"
proof (induction n rule: str_nat.induct)
  case (1 n)
  show ?case
  proof (cases "n < 10")
    case True
    then show ?thesis by (subst str_nat.simps) (simp add: is_digit_digit_char)
  next
    case False
    with "1.IH" have "list_all is_digit (str_nat (n div 10))" by simp
    moreover have "is_digit (digit_char (n mod 10))" by (rule is_digit_digit_char) simp
    ultimately show ?thesis using False by (subst str_nat.simps) simp
  qed
qed

lemma str_nat_nonempty: "str_nat n \<noteq> []"
  by (subst str_nat.simps) simp

lemma nat_of_digits_str_nat: "nat_of_digits (str_nat n) = n"
proof (induction n rule: str_nat.induct)
  case (1 n)
  show ?case
  proof (cases "n < 10")
    case True
    then show ?thesis
      by (subst str_nat.simps) (simp add: nat_of_digits_def of_char_digit_char)
  next
    case False
    with "1.IH" have ih: "nat_of_digits (str_nat (n div 10)) = n div 10" by simp
    have "n mod 10 < 10" by simp
    then have d: "(of_char (digit_char (n mod 10)) :: nat) - 48 = n mod 10"
      by (simp add: of_char_digit_char)
    have "nat_of_digits (str_nat n) =
          10 * nat_of_digits (str_nat (n div 10)) + (of_char (digit_char (n mod 10)) - 48)"
      using False by (subst str_nat.simps) (simp add: nat_of_digits_def)
    also have "\<dots> = 10 * (n div 10) + n mod 10" by (simp only: ih d)
    also have "\<dots> = n" by simp
    finally show ?thesis .
  qed
qed

lemma str_nat_inj: "str_nat m = str_nat n \<Longrightarrow> m = n"
  by (metis nat_of_digits_str_nat)

lemma not_digit_colon: "\<not> is_digit CHR '':''" and not_digit_minus: "\<not> is_digit CHR ''-''"
  by (simp_all add: is_digit_def)

lemma colon_notin_str_nat: "CHR '':'' \<notin> set (str_nat n)"
  using str_nat_digits [of n] not_digit_colon by (auto simp: list_all_iff)

lemma minus_notin_str_nat: "CHR ''-'' \<notin> set (str_nat n)"
  using str_nat_digits [of n] not_digit_minus by (auto simp: list_all_iff)

lemma colon_notin_py_str_int: "CHR '':'' \<notin> set (py_str_int i)"
  by (simp add: py_str_int_def colon_notin_str_nat)

lemma str_nat_not_minus: "str_nat n \<noteq> CHR ''-'' # s"
proof
  assume "str_nat n = CHR ''-'' # s"
  then have "CHR ''-'' \<in> set (str_nat n)" by simp
  with minus_notin_str_nat show False by blast
qed

lemma py_str_int_inj:
  assumes "py_str_int i = py_str_int j"
  shows "i = j"
proof (cases "i < 0")
  case True
  show ?thesis
  proof (cases "j < 0")
    case jn: True
    with True assms have "str_nat (nat (- i)) = str_nat (nat (- j))"
      by (simp add: py_str_int_def)
    then have "nat (- i) = nat (- j)" by (rule str_nat_inj)
    with True jn show ?thesis by simp
  next
    case False
    with True assms have "str_nat (nat j) = CHR ''-'' # str_nat (nat (- i))"
      by (simp add: py_str_int_def)
    with str_nat_not_minus show ?thesis by blast
  qed
next
  case False
  show ?thesis
  proof (cases "j < 0")
    case True
    with False assms have "str_nat (nat i) = CHR ''-'' # str_nat (nat (- j))"
      by (simp add: py_str_int_def)
    with str_nat_not_minus show ?thesis by blast
  next
    case jp: False
    with False assms have "str_nat (nat i) = str_nat (nat j)"
      by (simp add: py_str_int_def)
    then have "nat i = nat j" by (rule str_nat_inj)
    with False jp show ?thesis by simp
  qed
qed

lemma split_at_last_separator:
  assumes "xs @ c # ys = xs' @ c # ys'" and "c \<notin> set ys" and "c \<notin> set ys'"
  shows "xs = xs' \<and> ys = ys'"
  using assms
proof (induction xs arbitrary: xs')
  case Nil
  then show ?case by (cases xs') auto
next
  case (Cons x xs)
  then show ?case by (cases xs') auto
qed

lemma format_server_id_inj:
  assumes "format_server_id i p = format_server_id i' p'"
  shows "i = i' \<and> p = p'"
proof -
  from assms have "i @ CHR '':'' # py_str_int p = i' @ CHR '':'' # py_str_int p'"
    by (simp add: format_server_id_def)
  then have "i = i' \<and> py_str_int p = py_str_int p'"
    by (rule split_at_last_separator) (rule colon_notin_py_str_int)+
  then show ?thesis by (auto dest: py_str_int_inj)
qed

section \<open>The registry of the test suite\<close>

lemma digit_char_values:
  "digit_char 0 = CHR ''0''" "digit_char 1 = CHR ''1''" "digit_char 2 = CHR ''2''"
  "digit_char 3 = CHR ''3''" "digit_char 4 = CHR ''4''" "digit_char 5 = CHR ''5''"
  "digit_char 6 = CHR ''6''" "digit_char 7 = CHR ''7''" "digit_char 8 = CHR ''8''"
  "digit_char 9 = CHR ''9''" "digit_char (Suc 0) = CHR ''1''"
  by (simp_all add: digit_char_def char_of_def bit_Suc_0_iff)

lemma str_nat_test_ports:
  "str_nat 5001 = ''5001''" "str_nat 5002 = ''5002''" "str_nat 5003 = ''5003''"
  by (simp_all add: str_nat.simps digit_char_values)

lemma format_server_id_test_servers:
  "format_server_id ''127.0.0.1'' 5001 = ''127.0.0.1:5001''"
  "format_server_id ''127.0.0.1'' 5002 = ''127.0.0.1:5002''"
  "format_server_id ''127.0.0.1'' 5003 = ''127.0.0.1:5003''"
  by (simp_all add: format_server_id_def py_str_int_def str_nat_test_ports)

lemma LoadBalancer_init_test_servers:
  "LoadBalancer_init [(''127.0.0.1'', 5001), (''127.0.0.1'', 5002), (''127.0.0.1'', 5003)] =
     test_registry srv1 srv2 srv3"
  by (simp add: LoadBalancer_init_def add_server_def format_server_id_test_servers
      test_registry_def srv1_def srv2_def srv3_def Let_def)

section \<open>Construction of the registry\<close>

lemma set_update_subset: "set (AList.update k v al) \<subseteq> insert (k, v) (set al)"
  by (induction al) auto

lemma add_server_servers:
  "servers (add_server lb (i, p)) =
     AList.update (format_server_id i p) (new_ServerMetrics i p) (servers lb)"
  and add_server_request_counts:
  "request_counts (add_server lb (i, p)) =
     AList.update (format_server_id i p) 0 (request_counts lb)"
  and add_server_other:
  "current_algorithm (add_server lb (i, p)) = current_algorithm lb"
  "round_robin_index (add_server lb (i, p)) = round_robin_index lb"
  "health_check_interval (add_server lb (i, p)) = health_check_interval lb"
  by (simp_all add: add_server_def Let_def)

lemma foldl_add_server_other:
  "current_algorithm (foldl add_server lb xs) = current_algorithm lb \<and>
   round_robin_index (foldl add_server lb xs) = round_robin_index lb \<and>
   health_check_interval (foldl add_server lb xs) = health_check_interval lb"
proof (induction xs arbitrary: lb)
  case Nil
  then show ?case by simp
next
  case (Cons x xs)
  obtain i p where x: "x = (i, p)" by (cases x)
  from Cons.IH [of "add_server lb x"] show ?case by (simp add: x add_server_other)
qed

lemma foldl_add_server_distinct:
  assumes "distinct (map fst (servers lb))"
  shows "distinct (map fst (servers (foldl add_server lb xs)))"
  using assms
proof (induction xs arbitrary: lb)
  case Nil
  then show ?case by simp
next
  case (Cons x xs)
  obtain i p where x: "x = (i, p)" by (cases x)
  have "distinct (map fst (servers (add_server lb x)))"
    using Cons.prems by (simp add: x add_server_servers AList.distinct_update)
  from Cons.IH [OF this] show ?case by simp
qed

lemma foldl_add_server_keys:
  "fst ` set (servers (foldl add_server lb xs)) =
     fst ` set (servers lb) \<union> (\<lambda>(i, p). format_server_id i p) ` set xs"
proof (induction xs arbitrary: lb)
  case Nil
  then show ?case by simp
next
  case (Cons x xs)
  obtain i p where x: "x = (i, p)" by (cases x)
  have "fst ` set (servers (add_server lb x)) = {format_server_id i p} \<union> fst ` set (servers lb)"
    by (simp add: x add_server_servers AList.dom_update)
  with Cons.IH [of "add_server lb x"] show ?case by (auto simp: x)
qed

lemma foldl_add_server_values:
  assumes "(k, s) \<in> set (servers (foldl add_server lb xs))"
  shows "(k, s) \<in> set (servers lb) \<or>
         (\<exists>(i, p) \<in> set xs. k = format_server_id i p \<and> s = new_ServerMetrics i p)"
  using assms
proof (induction xs arbitrary: lb)
  case Nil
  then show ?case by simp
next
  case (Cons x xs)
  obtain i p where x: "x = (i, p)" by (cases x)
  from Cons.prems have "(k, s) \<in> set (servers (foldl add_server (add_server lb x) xs))" by simp
  from Cons.IH [OF this] consider "(k, s) \<in> set (servers (add_server lb x))"
    | "\<exists>(i, p) \<in> set xs. k = format_server_id i p \<and> s = new_ServerMetrics i p" by blast
  then show ?case
  proof cases
    case 1
    with set_update_subset [of "format_server_id i p" "new_ServerMetrics i p" "servers lb"]
    have "(k, s) = (format_server_id i p, new_ServerMetrics i p) \<or> (k, s) \<in> set (servers lb)"
      by (auto simp: x add_server_servers)
    then show ?thesis by (auto simp: x)
  next
    case 2
    then show ?thesis by auto
  qed
qed

lemma foldl_add_server_counts:
  assumes "\<forall>k \<in> fst ` set (servers lb). map_of (request_counts lb) k = Some 0"
  shows "\<forall>k \<in> fst ` set (servers (foldl add_server lb xs)).
           map_of (request_counts (foldl add_server lb xs)) k = Some 0"
  using assms
proof (induction xs arbitrary: lb)
  case Nil
  then show ?case by simp
next
  case (Cons x xs)
  obtain i p where x: "x = (i, p)" by (cases x)
  have "\<forall>k \<in> fst ` set (servers (add_server lb x)).
          map_of (request_counts (add_server lb x)) k = Some 0"
    using Cons.prems
    by (auto simp: x add_server_servers add_server_request_counts AList.dom_update
        AList.update_conv')
  from Cons.IH [OF this] show ?case by simp
qed

lemma server_id_new_ServerMetrics:
  "server_id (new_ServerMetrics i p) = format_server_id i p"
  by (simp add: server_id_def new_ServerMetrics_def)

text \<open>
  C10. For every list of (host, port) pairs, the registry built by the constructor is keyed
  by \<open>host:port\<close>: its identifiers are pairwise distinct and are exactly the identifiers
  of the configured pairs, it has as many entries as there are distinct pairs in the list
  (two pairs have the same identifier only if they are equal), and every entry is the
  freshly initialised descriptor of a configured pair, stored under its own server
  identifier, healthy, of weight 1.0 and with request count 0; the policy is round-robin and
  the cursor is 0.
\<close>

theorem LoadBalancer_init_registry:
  "distinct (map fst (servers (LoadBalancer_init srvs))) \<and>
   set (map fst (servers (LoadBalancer_init srvs))) =
     (\<lambda>(i, p). format_server_id i p) ` set srvs \<and>
   length (servers (LoadBalancer_init srvs)) = card (set srvs) \<and>
   (\<forall>(k, s) \<in> set (servers (LoadBalancer_init srvs)).
      (\<exists>(i, p) \<in> set srvs. k = format_server_id i p \<and> s = new_ServerMetrics i p) \<and>
      server_id s = k \<and> healthy s \<and> weight s = 1 \<and>
      map_of (request_counts (LoadBalancer_init srvs)) k = Some 0) \<and>
   current_algorithm (LoadBalancer_init srvs) = ROUND_ROBIN \<and>
   round_robin_index (LoadBalancer_init srvs) = 0"
proof -
  let ?start = "\<lparr>servers = [], current_algorithm = ROUND_ROBIN, round_robin_index = 0,
               health_check_interval = 5, request_counts = []\<rparr>"
  let ?lb = "LoadBalancer_init srvs"
  let ?fid = "\<lambda>(i, p). format_server_id i p"
  have lb: "?lb = foldl add_server ?start srvs" by (simp add: LoadBalancer_init_def)
  have dist: "distinct (map fst (servers ?lb))"
    unfolding lb by (rule foldl_add_server_distinct) simp
  have keys: "set (map fst (servers ?lb)) = ?fid ` set srvs"
    using foldl_add_server_keys [of ?start srvs] by (simp add: lb)
  have inj: "inj_on ?fid (set srvs)"
    by (auto simp: inj_on_def dest: format_server_id_inj)
  have "length (servers ?lb) = length (map fst (servers ?lb))" by simp
  also have "\<dots> = card (set (map fst (servers ?lb)))"
    using dist by (simp only: distinct_card)
  also have "\<dots> = card (?fid ` set srvs)" by (simp only: keys)
  also have "\<dots> = card (set srvs)" using inj by (rule card_image)
  finally have len: "length (servers ?lb) = card (set srvs)" .
  have counts: "\<forall>k \<in> fst ` set (servers ?lb). map_of (request_counts ?lb) k = Some 0"
    unfolding lb by (rule foldl_add_server_counts) simp
  have entries: "\<forall>(k, s) \<in> set (servers ?lb).
      (\<exists>(i, p) \<in> set srvs. k = format_server_id i p \<and> s = new_ServerMetrics i p) \<and>
      server_id s = k \<and> healthy s \<and> weight s = 1 \<and>
      map_of (request_counts ?lb) k = Some 0"
  proof (intro ballI, clarify)
    fix k s assume ks: "(k, s) \<in> set (servers ?lb)"
    then have "(k, s) \<in> set (servers (foldl add_server ?start srvs))"
      by (simp add: LoadBalancer_init_def)
    from foldl_add_server_values [OF this] obtain i p where
      ip: "(i, p) \<in> set srvs" "k = format_server_id i p" "s = new_ServerMetrics i p"
      by auto
    from ks have "k \<in> fst ` set (servers ?lb)" by force
    with counts have c: "map_of (request_counts ?lb) k = Some 0" by blast
    have "server_id s = k" by (simp add: ip server_id_new_ServerMetrics)
    moreover have "healthy s" "weight s = 1" by (simp_all add: ip new_ServerMetrics_def)
    ultimately show "(\<exists>(i, p) \<in> set srvs. k = format_server_id i p \<and> s = new_ServerMetrics i p) \<and>
      server_id s = k \<and> healthy s \<and> weight s = 1 \<and>
      map_of (request_counts ?lb) k = Some 0"
      using ip c by blast
  qed
  have other: "current_algorithm ?lb = ROUND_ROBIN" "round_robin_index ?lb = 0"
    using foldl_add_server_other [of ?start srvs] by (simp_all add: lb)
  from dist keys len entries other show ?thesis by blast
qed

theorem LoadBalancer_init_registry_witness:
  "length (servers (LoadBalancer_init
      [(''127.0.0.1'', 5001), (''127.0.0.1'', 5001), (''127.0.0.1'', 5002)])) = 2 \<and>
   set (map fst (servers (LoadBalancer_init
      [(''127.0.0.1'', 5001), (''127.0.0.1'', 5001), (''127.0.0.1'', 5002)]))) =
     {format_server_id ''127.0.0.1'' 5001, format_server_id ''127.0.0.1'' 5002} \<and>
   list_all (\<lambda>(k, s). server_id s = k \<and> healthy s \<and> weight s = 1)
     (servers (LoadBalancer_init
        [(''127.0.0.1'', 5001), (''127.0.0.1'', 5001), (''127.0.0.1'', 5002)]))"
proof -
  let ?srvs = "[(''127.0.0.1'', 5001::int), (''127.0.0.1'', 5001), (''127.0.0.1'', 5002)]"
  have card: "card (set ?srvs) = 2" by simp
  from LoadBalancer_init_registry [of ?srvs] card show ?thesis
    unfolding list_all_iff by auto
qed

end
